theory Spec2Isabelle
  imports Main "HOL-Library.Monad_Syntax"
begin

section \<open>Strings and the regular expressions of \<^verbatim>\<open>openApiGenerator.ts\<close>\<close>

text \<open>
  A JavaScript string is modelled as a \<^typ>\<open>string\<close>: a list of code units. The model
  covers code units below 256; the case mappings \<^verbatim>\<open>toLowerCase\<close> and
  \<^verbatim>\<open>toUpperCase\<close> are modelled on the ASCII letters and leave every other unit
  unchanged.
\<close>

definition lowerLetters :: string where
  "lowerLetters = ''abcdefghijklmnopqrstuvwxyz''"

definition upperLetters :: string where
  "upperLetters = ''ABCDEFGHIJKLMNOPQRSTUVWXYZ''"

definition digitChars :: string where
  "digitChars = ''0123456789''"

definition toUpperChar :: "char \<Rightarrow> char" where
  "toUpperChar c = (case map_of (zip lowerLetters upperLetters) c of Some u \<Rightarrow> u | None \<Rightarrow> c)"

definition toLowerChar :: "char \<Rightarrow> char" where
  "toLowerChar c = (case map_of (zip upperLetters lowerLetters) c of Some l \<Rightarrow> l | None \<Rightarrow> c)"

definition toUpperCase :: "string \<Rightarrow> string" where
  "toUpperCase s = map toUpperChar s"

definition toLowerCase :: "string \<Rightarrow> string" where
  "toLowerCase s = map toLowerChar s"

text \<open>The character class \<^verbatim>\<open>[a-zA-Z0-9]\<close>.\<close>

definition isAlnum :: "char \<Rightarrow> bool" where
  "isAlnum c = (c \<in> set (lowerLetters @ upperLetters @ digitChars))"

text \<open>
  The character class \<^verbatim>\<open>[-_\s]\<close>: hyphen, underscore and the white space of
  JavaScript below 256 (tab, line feed, vertical tab, form feed, carriage return, space,
  no-break space). The dot of a regular expression matches every unit but a line
  terminator.
\<close>

definition isSep :: "char \<Rightarrow> bool" where
  "isSep c = (c \<in> set [CHR ''-'', CHR ''_'', CHR 0x09, CHR 0x0A, CHR 0x0B, CHR 0x0C,
                         CHR 0x0D, CHR '' '', CHR 0xA0])"

definition isLineTerminator :: "char \<Rightarrow> bool" where
  "isLineTerminator c = (c = CHR 0x0A \<or> c = CHR 0x0D)"

text \<open>
  \<^verbatim>\<open>/\{([^}]+)\}/\<close> matched at the head of a string: an opening brace, the longest
  non-empty run of units other than the closing brace, and the closing brace. The result
  is the run (the capture group) and the text after the match.
\<close>

definition braceMatch :: "string \<Rightarrow> (string \<times> string) option" where
  "braceMatch s =
     (case s of
        [] \<Rightarrow> None
      | c # cs \<Rightarrow>
          if c = CHR ''{'' \<and> takeWhile (\<lambda>x. x \<noteq> CHR ''}'') cs \<noteq> []
               \<and> dropWhile (\<lambda>x. x \<noteq> CHR ''}'') cs \<noteq> []
          then Some (takeWhile (\<lambda>x. x \<noteq> CHR ''}'') cs, tl (dropWhile (\<lambda>x. x \<noteq> CHR ''}'') cs))
          else None)"

lemma braceMatch_shorter:
  "braceMatch s = Some (tok, rest) \<Longrightarrow> length rest < length s"
proof -
  assume m: "braceMatch s = Some (tok, rest)"
  then obtain c cs where s: "s = c # cs"
    by (cases s) (simp_all add: braceMatch_def)
  from m s have "rest = tl (dropWhile (\<lambda>x. x \<noteq> CHR ''}'') cs)"
    by (simp add: braceMatch_def split: if_splits)
  moreover have "length (dropWhile (\<lambda>x. x \<noteq> CHR ''}'') cs) \<le> length cs"
    by (rule length_dropWhile_le)
  ultimately show ?thesis using s by simp
qed

text \<open>\<^verbatim>\<open>str.match(/\{([^}]+)\}/g)\<close>: the matches, left to right, none overlapping.\<close>

function matchBraces :: "string \<Rightarrow> string list" where
  "matchBraces [] = []"
| "matchBraces (c # cs) =
     (case braceMatch (c # cs) of
        Some (tok, rest) \<Rightarrow> (CHR ''{'' # tok @ ''}'') # matchBraces rest
      | None \<Rightarrow> matchBraces cs)"
  by pat_completeness auto
termination
  by (relation "measure length") (auto dest: braceMatch_shorter)

text \<open>\<^verbatim>\<open>str.replace(/\{[^}]+\}/g, "By")\<close>.\<close>

function replaceBraces :: "string \<Rightarrow> string" where
  "replaceBraces [] = []"
| "replaceBraces (c # cs) =
     (case braceMatch (c # cs) of
        Some (tok, rest) \<Rightarrow> ''By'' @ replaceBraces rest
      | None \<Rightarrow> c # replaceBraces cs)"
  by pat_completeness auto
termination
  by (relation "measure length") (auto dest: braceMatch_shorter)

text \<open>
  \<^verbatim>\<open>/[-_\s]+(.)/\<close> matched at the head of a string, with the backtracking of the
  greedy \<^verbatim>\<open>+\<close>: the longer run is tried first. The result is the captured unit and
  the text after the match.
\<close>

fun sepMatch :: "string \<Rightarrow> (char \<times> string) option" where
  "sepMatch (c # d # t) =
     (if isSep c
      then (case sepMatch (d # t) of
              Some r \<Rightarrow> Some r
            | None \<Rightarrow> if isLineTerminator d then None else Some (d, t))
      else None)"
| "sepMatch s = None"

lemma sepMatch_shorter:
  "sepMatch s = Some (ch, rest) \<Longrightarrow> length rest < length s"
  by (induction s arbitrary: ch rest rule: sepMatch.induct)
     (auto split: if_splits option.splits)

text \<open>\<^verbatim>\<open>str.replace(/[-_\s]+(.)/g, (_, char) => char.toUpperCase())\<close>.\<close>

function replaceSeps :: "string \<Rightarrow> string" where
  "replaceSeps [] = []"
| "replaceSeps (c # cs) =
     (case sepMatch (c # cs) of
        Some (ch, rest) \<Rightarrow> toUpperChar ch # replaceSeps rest
      | None \<Rightarrow> c # replaceSeps cs)"
  by pat_completeness auto
termination
  by (relation "measure length") (auto dest: sepMatch_shorter)

section \<open>Naming utilities and the operation analyzer\<close>

text \<open>
  \<^verbatim>\<open>camelCase\<close>: the first unit in lower case, then the rest with every separator
  run folded into the upper case of the unit after it and every unit outside
  \<^verbatim>\<open>[a-zA-Z0-9]\<close> deleted.
\<close>

definition camelCase :: "string \<Rightarrow> string" where
  "camelCase str =
     (case str of
        [] \<Rightarrow> []
      | c # cs \<Rightarrow> toLowerChar c # filter isAlnum (replaceSeps cs))"

definition pascalCase :: "string \<Rightarrow> string" where
  "pascalCase str =
     (case camelCase str of
        [] \<Rightarrow> []
      | c # cs \<Rightarrow> toUpperChar c # cs)"

text \<open>
  \<^verbatim>\<open>extractPathParameters\<close>: \<^verbatim>\<open>match\<close> gives null when nothing matches, and
  \<^verbatim>\<open>slice(1, -1)\<close> drops the braces of a match.
\<close>

definition extractPathParameters :: "string \<Rightarrow> string list" where
  "extractPathParameters pathTemplate =
     (let matches = matchBraces pathTemplate
      in if matches = [] then [] else map (\<lambda>m. butlast (tl m)) matches)"

text \<open>\<^verbatim>\<open>generateOperationId\<close>: the method is not used.\<close>

definition generateOperationId :: "string \<Rightarrow> string \<Rightarrow> string" where
  "generateOperationId method path = filter isAlnum (replaceBraces path)"

section \<open>JavaScript values\<close>

text \<open>
  The documents are what \<^verbatim>\<open>yaml.load\<close> returns and the generator reads them as
  \<^verbatim>\<open>any\<close>: a schema, a property or an operation can be any value. Numbers are
  modelled as integers (the model does not cover fractions, nor the dates a YAML
  timestamp loads as). An object is the list of its own entries in the order of
  \<^verbatim>\<open>Object.entries\<close>.
\<close>

datatype jsval =
    JUndefined
  | JNull
  | JBool bool
  | JNum int
  | JStr string
  | JArr "jsval list"
  | JObj "(string \<times> jsval) list"

text \<open>A thrown \<^verbatim>\<open>TypeError\<close> is the value \<^term>\<open>None\<close> of a result.\<close>

definition nullish :: "jsval \<Rightarrow> bool" where
  "nullish v = (v = JUndefined \<or> v = JNull)"

fun truthy :: "jsval \<Rightarrow> bool" where
  "truthy JUndefined = False"
| "truthy JNull = False"
| "truthy (JBool b) = b"
| "truthy (JNum n) = (n \<noteq> 0)"
| "truthy (JStr s) = (s \<noteq> [])"
| "truthy (JArr vs) = True"
| "truthy (JObj kvs) = True"

text \<open>
  \<^verbatim>\<open>v.k\<close> for a value that is neither null nor undefined (reading a property of
  those throws: every function below tests \<^const>\<open>nullish\<close> before its first read).
  The generator reads only the names \<^verbatim>\<open>enum\<close>, \<^verbatim>\<open>required\<close>,
  \<^verbatim>\<open>allOf\<close>, \<^verbatim>\<open>$ref\<close>, \<^verbatim>\<open>type\<close>, \<^verbatim>\<open>format\<close>,
  \<^verbatim>\<open>items\<close>, \<^verbatim>\<open>properties\<close>, \<^verbatim>\<open>operationId\<close>,
  \<^verbatim>\<open>summary\<close>, \<^verbatim>\<open>description\<close>, \<^verbatim>\<open>parameters\<close>, \<^verbatim>\<open>in\<close>,
  \<^verbatim>\<open>name\<close>, \<^verbatim>\<open>paths\<close>, \<^verbatim>\<open>servers\<close>, \<^verbatim>\<open>url\<close>,
  \<^verbatim>\<open>components\<close> and \<^verbatim>\<open>schemas\<close>, none of which a string, a number, a
  boolean or an array has.
\<close>

fun field :: "jsval \<Rightarrow> string \<Rightarrow> jsval" where
  "field (JObj kvs) k = (case map_of kvs k of Some v \<Rightarrow> v | None \<Rightarrow> JUndefined)"
| "field v k = JUndefined"

text \<open>
  The decimal digits of a number, as JavaScript prints an integer of magnitude below
  \<open>10\<^sup>2\<^sup>1\<close> (from there on it prints an exponent, which the model does not).
\<close>

function showNat :: "nat \<Rightarrow> string" where
  "showNat n = (if n < 10 then [digitChars ! n] else showNat (n div 10) @ [digitChars ! (n mod 10)])"
  by pat_completeness auto
termination
  by (relation "measure id") auto

declare showNat.simps [simp del]

definition showInt :: "int \<Rightarrow> string" where
  "showInt i = (if i < 0 then CHR ''-'' # showNat (nat (- i)) else showNat (nat i))"

text \<open>\<^verbatim>\<open>strings.join(sep)\<close> on strings.\<close>

fun joinStrings :: "string \<Rightarrow> string list \<Rightarrow> string" where
  "joinStrings sep [] = []"
| "joinStrings sep [x] = x"
| "joinStrings sep (x # y # ys) = x @ sep @ joinStrings sep (y # ys)"

text \<open>
  The conversion of a value to a string (a template literal, \<^verbatim>\<open>String(v)\<close>): an
  array is its elements joined by a comma, where null and undefined give the empty
  string.
\<close>

fun toStringJS :: "jsval \<Rightarrow> string" where
  "toStringJS JUndefined = ''undefined''"
| "toStringJS JNull = ''null''"
| "toStringJS (JBool b) = (if b then ''true'' else ''false'')"
| "toStringJS (JNum n) = showInt n"
| "toStringJS (JStr s) = s"
| "toStringJS (JArr vs) =
     joinStrings '','' (map (\<lambda>v. if v = JUndefined \<or> v = JNull then [] else toStringJS v) vs)"
| "toStringJS (JObj kvs) = ''[object Object]''"

text \<open>\<^verbatim>\<open>array.join(sep)\<close>: null and undefined elements give the empty string.\<close>

definition joinJS :: "string \<Rightarrow> jsval list \<Rightarrow> string" where
  "joinJS sep vs = joinStrings sep (map (\<lambda>v. if nullish v then [] else toStringJS v) vs)"

text \<open>
  What \<^verbatim>\<open>for (const x of v)\<close> and \<^verbatim>\<open>new Set(v)\<close> iterate over: the elements of
  an array, the units of a string; any other value is not iterable.
\<close>

fun iterate :: "jsval \<Rightarrow> jsval list option" where
  "iterate (JArr vs) = Some vs"
| "iterate (JStr s) = Some (map (\<lambda>c. JStr [c]) s)"
| "iterate v = None"

text \<open>
  The receiver of \<^verbatim>\<open>map\<close>, \<^verbatim>\<open>forEach\<close> and \<^verbatim>\<open>filter\<close>: only an array has
  these methods.
\<close>

fun asArray :: "jsval \<Rightarrow> jsval list option" where
  "asArray (JArr vs) = Some vs"
| "asArray v = None"

text \<open>\<^verbatim>\<open>v || []\<close>.\<close>

definition orEmptyArray :: "jsval \<Rightarrow> jsval" where
  "orEmptyArray v = (if truthy v then v else JArr [])"

text \<open>
  \<^verbatim>\<open>Object.entries(v)\<close> for a value that is neither null nor undefined: the entries of
  an object, the indexed elements of an array, the indexed units of a string, nothing
  for a number or a boolean.
\<close>

fun ownEntries :: "jsval \<Rightarrow> (string \<times> jsval) list" where
  "ownEntries (JObj kvs) = kvs"
| "ownEntries (JArr vs) = zip (map showNat [0..<length vs]) vs"
| "ownEntries (JStr s) = zip (map showNat [0..<length s]) (map (\<lambda>c. JStr [c]) s)"
| "ownEntries v = []"

text \<open>\<^verbatim>\<open>Object.entries(v)\<close> and \<^verbatim>\<open>Object.values(v)\<close> throw on null and undefined.\<close>

definition objectEntries :: "jsval \<Rightarrow> (string \<times> jsval) list option" where
  "objectEntries v = (if nullish v then None else Some (ownEntries v))"

text \<open>
  \<^verbatim>\<open>set.add(x)\<close> on a \<^verbatim>\<open>Set\<close>, which keeps insertion order, and
  \<^verbatim>\<open>set.has(x)\<close>. The generator asks \<^verbatim>\<open>has\<close> of strings only, which a
  \<^verbatim>\<open>Set\<close> compares by value.
\<close>

definition setAdd :: "'a \<Rightarrow> 'a list \<Rightarrow> 'a list" where
  "setAdd x xs = (if x \<in> set xs then xs else xs @ [x])"

definition setHas :: "'a list \<Rightarrow> 'a \<Rightarrow> bool" where
  "setHas xs x = (x \<in> set xs)"

text \<open>
  A property key is an array index when it is the decimal form of a number below
  \<open>2\<^sup>3\<^sup>2 - 1\<close>. An object lists its array-index keys first, in ascending order, then
  its other keys in insertion order.
\<close>

definition parseNat :: "string \<Rightarrow> int" where
  "parseNat s = foldl (\<lambda>n c. 10 * n + int (length (takeWhile (\<lambda>d. d \<noteq> c) digitChars))) 0 s"

definition isArrayIndex :: "string \<Rightarrow> bool" where
  "isArrayIndex k =
     (k \<noteq> [] \<and> length k \<le> 10 \<and> (\<forall>c \<in> set k. c \<in> set digitChars)
      \<and> (k = ''0'' \<or> hd k \<noteq> CHR ''0'') \<and> parseNat k < 4294967295)"

text \<open>
  \<^verbatim>\<open>obj[k] = v\<close> on the entries of an object (the key \<^verbatim>\<open>__proto__\<close>, which
  sets the prototype instead, is outside the model).
\<close>

definition objSet :: "(string \<times> jsval) list \<Rightarrow> string \<Rightarrow> jsval \<Rightarrow> (string \<times> jsval) list" where
  "objSet kvs k v =
     (if k \<in> fst ` set kvs then map (\<lambda>(k', v'). if k' = k then (k', v) else (k', v')) kvs
      else if isArrayIndex k
      then takeWhile (\<lambda>(k', v'). isArrayIndex k' \<and> parseNat k' < parseNat k) kvs
           @ [(k, v)]
           @ dropWhile (\<lambda>(k', v'). isArrayIndex k' \<and> parseNat k' < parseNat k) kvs
      else kvs @ [(k, v)])"

text \<open>\<^verbatim>\<open>Object.assign(target, source)\<close> for a source that is truthy.\<close>

definition objAssign :: "(string \<times> jsval) list \<Rightarrow> jsval \<Rightarrow> (string \<times> jsval) list" where
  "objAssign target source = fold (\<lambda>(k, v) t. objSet t k v) (ownEntries source) target"

text \<open>\<^verbatim>\<open>ref.split("/").pop()\<close>: the text after the last slash; only a string has \<^verbatim>\<open>split\<close>.\<close>

definition lastSegment :: "string \<Rightarrow> string" where
  "lastSegment s = rev (takeWhile (\<lambda>c. c \<noteq> CHR ''/'') (rev s))"

fun refNameOf :: "jsval \<Rightarrow> string option" where
  "refNameOf (JStr s) = Some (lastSegment s)"
| "refNameOf v = None"

text \<open>Loops whose body can throw.\<close>

fun mapM :: "('a \<Rightarrow> 'b option) \<Rightarrow> 'a list \<Rightarrow> 'b list option" where
  "mapM f [] = Some []"
| "mapM f (x # xs) = do { y \<leftarrow> f x; ys \<leftarrow> mapM f xs; Some (y # ys) }"

fun forEachM :: "('a \<Rightarrow> 's \<Rightarrow> 's option) \<Rightarrow> 'a list \<Rightarrow> 's \<Rightarrow> 's option" where
  "forEachM f [] s = Some s"
| "forEachM f (x # xs) s = do { s' \<leftarrow> f x s; forEachM f xs s' }"

lemma mapM_cong [fundef_cong]:
  "xs = ys \<Longrightarrow> (\<And>x. x \<in> set ys \<Longrightarrow> f x = g x) \<Longrightarrow> mapM f xs = mapM g ys"
  by (induction ys arbitrary: xs) auto

lemma forEachM_cong [fundef_cong]:
  "xs = ys \<Longrightarrow> s = t \<Longrightarrow> (\<And>x u. x \<in> set ys \<Longrightarrow> f x u = g x u) \<Longrightarrow> forEachM f xs s = forEachM g ys t"
  by (induction ys arbitrary: xs s t) (auto split: bind_splits)

lemma size_field_less:
  "field p k \<noteq> JUndefined \<Longrightarrow> size (field p k) < size p"
proof (cases p)
  case (JObj kvs)
  assume "field p k \<noteq> JUndefined"
  with JObj obtain v where v: "map_of kvs k = Some v" "field p k = v"
    by (auto split: option.splits)
  then have "(k, v) \<in> set kvs" by (simp add: map_of_SomeD)
  then have "size v < Suc (size_list (size_prod (\<lambda>x. 0) size) kvs)"
    by (induction kvs) auto
  with v JObj show ?thesis by simp
qed simp_all

lemma size_ownEntries_le:
  "(k, x) \<in> set (ownEntries v) \<Longrightarrow> size x \<le> size v"
proof (cases v)
  case (JArr vs)
  assume "(k, x) \<in> set (ownEntries v)"
  with JArr have "x \<in> set vs" by (auto dest: set_zip_rightD)
  then have "size x \<le> size_list size vs" by (induction vs) auto
  with JArr show ?thesis by simp
next
  case (JStr s)
  assume "(k, x) \<in> set (ownEntries v)"
  with JStr have "x \<in> set (map (\<lambda>c. JStr [c]) s)" by (auto dest: set_zip_rightD)
  then show ?thesis by auto
next
  case (JObj kvs)
  assume "(k, x) \<in> set (ownEntries v)"
  with JObj have "(k, x) \<in> set kvs" by simp
  then have "size x \<le> size_list (size_prod (\<lambda>x. 0) size) kvs" by (induction kvs) auto
  with JObj show ?thesis by simp
qed simp_all

lemma truthy_not_undefined: "truthy v \<Longrightarrow> v \<noteq> JUndefined"
  by auto

section \<open>The type resolver\<close>

text \<open>
  \<^verbatim>\<open>schema.enum.map((v) => (typeof v === "string" ? `'${v}'` : v)).join(" | ")\<close>.
\<close>

definition quoteLiteral :: "jsval \<Rightarrow> jsval" where
  "quoteLiteral v = (case v of JStr s \<Rightarrow> JStr ([CHR 0x27] @ s @ [CHR 0x27]) | _ \<Rightarrow> v)"

definition enumUnion :: "jsval \<Rightarrow> string option" where
  "enumUnion e = map_option (\<lambda>vs. joinJS '' | '' (map quoteLiteral vs)) (asArray e)"

function getTypeScriptType :: "jsval \<Rightarrow> jsval \<Rightarrow> string option" where
  "getTypeScriptType schema allSchemas =
     (if nullish schema then None
      else if truthy (field schema ''$ref'') then
        map_option (\<lambda>refName. if refName \<noteq> [] then refName else ''any'')
          (refNameOf (field schema ''$ref''))
      else if truthy (field schema ''enum'') then enumUnion (field schema ''enum'')
      else if field schema ''type'' = JStr ''string'' then
        Some (if field schema ''format'' = JStr ''date-time'' \<or> field schema ''format'' = JStr ''date''
              then ''Date'' else ''string'')
      else if field schema ''type'' = JStr ''number'' \<or> field schema ''type'' = JStr ''integer'' then
        Some ''number''
      else if field schema ''type'' = JStr ''boolean'' then Some ''boolean''
      else if field schema ''type'' = JStr ''array'' then
        (if truthy (field schema ''items'')
         then map_option (\<lambda>t. t @ ''[]'') (getTypeScriptType (field schema ''items'') allSchemas)
         else Some ''any[]'')
      else if field schema ''type'' = JStr ''object'' then
        (if truthy (field schema ''properties'')
         then map_option (\<lambda>props. ''{ '' @ joinStrings ''; '' props @ '' }'')
                (mapM (\<lambda>(key, prop). map_option (\<lambda>t. key @ '': '' @ t) (getTypeScriptType prop allSchemas))
                   (ownEntries (field schema ''properties'')))
         else Some ''Record<string, any>'')
      else Some ''any'')"
  by pat_completeness auto
termination
proof (relation "measure (\<lambda>(schema, allSchemas). size schema)", goal_cases)
  case 1
  show ?case by simp
next
  case (2 schema allSchemas)
  then show ?case by (simp add: size_field_less truthy_not_undefined)
next
  case (3 schema allSchemas x key p)
  from 3 have "(key, p) \<in> set (ownEntries (field schema ''properties''))"
    by simp
  then have "size p \<le> size (field schema ''properties'')"
    by (rule size_ownEntries_le)
  moreover from 3 have "size (field schema ''properties'') < size schema"
    by (simp add: size_field_less truthy_not_undefined)
  ultimately show ?case by simp
qed

declare getTypeScriptType.simps [simp del]

section \<open>The DTO emitter\<close>

text \<open>
  \<^verbatim>\<open>collectRefs\<close>, the closure of \<^verbatim>\<open>generateDTOType\<close>, with the schema's name
  and the set \<^verbatim>\<open>usedRefs\<close> it adds to passed explicitly.
\<close>

function collectRefs :: "string \<Rightarrow> jsval \<Rightarrow> string list \<Rightarrow> string list option" where
  "collectRefs name propSchema used =
     (if nullish propSchema then None
      else do {
        used1 \<leftarrow>
          (if truthy (field propSchema ''$ref'')
           then map_option
                  (\<lambda>refName. if refName \<noteq> [] \<and> refName \<noteq> name then setAdd refName used else used)
                  (refNameOf (field propSchema ''$ref''))
           else Some used);
        used2 \<leftarrow>
          (if field propSchema ''type'' = JStr ''array'' \<and> truthy (field propSchema ''items'')
           then collectRefs name (field propSchema ''items'') used1
           else Some used1);
        (if field propSchema ''type'' = JStr ''object'' \<and> truthy (field propSchema ''properties'')
         then forEachM (\<lambda>p u. collectRefs name p u)
                (map snd (ownEntries (field propSchema ''properties''))) used2
         else Some used2)
      })"
  by pat_completeness auto
termination
proof (relation "measure (\<lambda>(name, propSchema, used). size propSchema)", goal_cases)
  case 1
  show ?case by simp
next
  case (2 name propSchema used x)
  then show ?case by (simp add: size_field_less truthy_not_undefined)
next
  case (3 name propSchema used x xa p u)
  from 3 obtain k where "(k, p) \<in> set (ownEntries (field propSchema ''properties''))"
    by auto
  then have "size p \<le> size (field propSchema ''properties'')"
    by (rule size_ownEntries_le)
  moreover from 3 have "size (field propSchema ''properties'') < size propSchema"
    by (simp add: size_field_less truthy_not_undefined)
  ultimately show ?case by simp
qed

declare collectRefs.simps [simp del]

text \<open>
  The local variables of \<^verbatim>\<open>generateDTOType\<close>. \<^verbatim>\<open>properties\<close> is held as the
  entries of the object, \<^verbatim>\<open>usedRefs\<close> and \<^verbatim>\<open>requiredProps\<close> as the elements of
  the sets in insertion order.
\<close>

record dtoState =
  usedRefs :: "string list"
  inheritance :: "string list"
  properties :: "(string \<times> jsval) list"
  requiredProps :: "jsval list"

text \<open>The body of the loop over \<^verbatim>\<open>schema.allOf\<close>.\<close>

definition allOfPart :: "jsval \<Rightarrow> dtoState \<Rightarrow> dtoState option" where
  "allOfPart part st =
     (if nullish part then None
      else if truthy (field part ''$ref'') then
        map_option
          (\<lambda>refName. if refName \<noteq> []
                      then st\<lparr>usedRefs := setAdd refName (usedRefs st),
                              inheritance := inheritance st @ [refName]\<rparr>
                      else st)
          (refNameOf (field part ''$ref''))
      else if field part ''type'' = JStr ''object'' \<and> truthy (field part ''properties'') then
        map_option
          (\<lambda>rs. st\<lparr>properties := objAssign (properties st) (field part ''properties''),
                    requiredProps := fold setAdd rs (requiredProps st)\<rparr>)
          (asArray (orEmptyArray (field part ''required'')))
      else Some st)"

text \<open>
  \<^verbatim>\<open>generateDTOType\<close> after the enum case: the properties, the bases and the set
  of required names come from the parts of \<^verbatim>\<open>allOf\<close> when the schema has one, from
  the schema's own \<^verbatim>\<open>properties\<close> and \<^verbatim>\<open>required\<close> otherwise.
  \<^verbatim>\<open>required0\<close> holds the elements of \<^verbatim>\<open>new Set(schema.required || [])\<close>.
\<close>

definition gatherProperties :: "jsval \<Rightarrow> jsval list \<Rightarrow> dtoState option" where
  "gatherProperties schema required0 =
     (if truthy (field schema ''allOf'')
      then do {
        parts \<leftarrow> iterate (field schema ''allOf'');
        forEachM allOfPart parts
          \<lparr>usedRefs = [], inheritance = [], properties = [],
           requiredProps = fold setAdd required0 []\<rparr>
      }
      else do {
        rs \<leftarrow> asArray (orEmptyArray (field schema ''required''));
        Some \<lparr>usedRefs = [], inheritance = [],
              properties = (if truthy (field schema ''properties'')
                            then ownEntries (field schema ''properties'') else []),
              requiredProps = fold setAdd rs (fold setAdd required0 [])\<rparr>
      })"

text \<open>Then \<^verbatim>\<open>collectRefs\<close> runs on every property.\<close>

definition collectState :: "string \<Rightarrow> jsval \<Rightarrow> dtoState option" where
  "collectState name schema =
     do {
       required0 \<leftarrow> iterate (orEmptyArray (field schema ''required''));
       st \<leftarrow> gatherProperties schema required0;
       refs \<leftarrow> forEachM (collectRefs name) (map snd (properties st)) (usedRefs st);
       Some (st\<lparr>usedRefs := refs\<rparr>)
     }"

definition importLine :: "string \<Rightarrow> string" where
  "importLine r = ''import type { '' @ r @ '' } from '' @ [CHR 0x27] @ ''./'' @ r @ [CHR 0x27] @ '';''"

definition importSection :: "string list \<Rightarrow> string" where
  "importSection refs =
     (if refs \<noteq> [] then joinStrings ''\<newline>'' (map importLine refs) @ ''\<newline>\<newline>'' else [])"

definition extendsLine :: "string list \<Rightarrow> string" where
  "extendsLine inh = (if inh \<noteq> [] then '' extends '' @ joinStrings '', '' inh else [])"

definition propLine :: "string \<Rightarrow> bool \<Rightarrow> string \<Rightarrow> string" where
  "propLine propName isRequired propType =
     ''  '' @ propName @ (if isRequired then [] else ''?'') @ '': '' @ propType @ '';\<newline>''"

text \<open>The lines of the interface body, one for every entry of \<^verbatim>\<open>properties\<close>.\<close>

definition propLines :: "dtoState \<Rightarrow> jsval \<Rightarrow> string list option" where
  "propLines st allSchemas =
     mapM (\<lambda>(propName, propSchema).
             map_option (propLine propName (setHas (requiredProps st) (JStr propName)))
               (getTypeScriptType propSchema allSchemas))
       (properties st)"

definition generateDTOType :: "string \<Rightarrow> jsval \<Rightarrow> jsval \<Rightarrow> string option" where
  "generateDTOType name schema allSchemas =
     (if nullish schema then None
      else if truthy (field schema ''enum'') then
        map_option (\<lambda>enumType. ''export type '' @ name @ '' = '' @ enumType @ '';\<newline>'')
          (enumUnion (field schema ''enum''))
      else do {
        st \<leftarrow> collectState name schema;
        body \<leftarrow> propLines st allSchemas;
        Some (importSection (usedRefs st) @ ''export interface '' @ name
              @ extendsLine (inheritance st) @ '' {\<newline>'' @ concat body @ ''}\<newline>'')
      })"

text \<open>
  The file system as the generator observes it: whether the recursive \<^verbatim>\<open>mkdir\<close> of
  a directory succeeds, and whether \<^verbatim>\<open>writeFile\<close> of a content to a path succeeds
  after the files the run has written so far. A call that does not succeed throws. A path
  is the arguments of \<^verbatim>\<open>path.join\<close> joined by a slash, relative to the directory of
  the document; the normalization \<^verbatim>\<open>path.join\<close> applies to the result is left out,
  so a schema name that holds a slash or dots keeps them in the path, and it is for the
  file system to accept or refuse such a path.
\<close>

record fileSystem =
  mkdirOk :: "string \<Rightarrow> bool"
  writeOk :: "(string \<times> string) list \<Rightarrow> string \<Rightarrow> string \<Rightarrow> bool"

definition pathJoin :: "string \<Rightarrow> string \<Rightarrow> string" where
  "pathJoin dir fileName = dir @ ''/'' @ fileName"

text \<open>
  \<^verbatim>\<open>generateDTOs\<close>. \<open>written\<close> holds the files the run has written before the
  call. The result is the files the call writes, in order, and whether it returned
  (\<^term>\<open>False\<close>: \<^verbatim>\<open>generateDTOType\<close> or a write threw, and nothing after the throw
  was written).
\<close>

definition exportLine :: "string \<Rightarrow> string" where
  "exportLine schemaName =
     ''export type { '' @ schemaName @ '' } from '' @ [CHR 0x27] @ ''./'' @ schemaName @ [CHR 0x27] @ '';''"

fun dtoLoop ::
  "fileSystem \<Rightarrow> string \<Rightarrow> jsval \<Rightarrow> (string \<times> jsval) list \<Rightarrow> string list
   \<Rightarrow> (string \<times> string) list \<Rightarrow> (string \<times> string) list \<times> bool" where
  "dtoLoop fs dtoDir schemas [] dtoExports written =
     (if writeOk fs written (pathJoin dtoDir ''index.ts'')
           (joinStrings ''\<newline>'' dtoExports @ ''\<newline>'')
      then ([(pathJoin dtoDir ''index.ts'', joinStrings ''\<newline>'' dtoExports @ ''\<newline>'')], True)
      else ([], False))"
| "dtoLoop fs dtoDir schemas ((schemaName, schema) # rest) dtoExports written =
     (case generateDTOType schemaName schema schemas of
        None \<Rightarrow> ([], False)
      | Some dtoContent \<Rightarrow>
          if \<not> writeOk fs written (pathJoin dtoDir (schemaName @ ''.ts'')) dtoContent
          then ([], False)
          else
            (case dtoLoop fs dtoDir schemas rest (dtoExports @ [exportLine schemaName])
                    (written @ [(pathJoin dtoDir (schemaName @ ''.ts''), dtoContent)]) of
               (ws, ok) \<Rightarrow> ((pathJoin dtoDir (schemaName @ ''.ts''), dtoContent) # ws, ok)))"

definition generateDTOs ::
  "fileSystem \<Rightarrow> (string \<times> string) list \<Rightarrow> jsval \<Rightarrow> string \<Rightarrow> (string \<times> string) list \<times> bool" where
  "generateDTOs fs written schemas dtoDir = dtoLoop fs dtoDir schemas (ownEntries schemas) [] written"

section \<open>The client synthesizer\<close>

text \<open>
  \<^verbatim>\<open>extractQueryParameters\<close>: the names of the parameters whose \<^verbatim>\<open>in\<close> is
  \<^verbatim>\<open>query\<close>. The callback of \<^verbatim>\<open>filter\<close> reads \<^verbatim>\<open>param.in\<close> of every
  element, which throws on null.
\<close>

definition extractQueryParameters :: "jsval \<Rightarrow> jsval list option" where
  "extractQueryParameters operation =
     (if nullish operation then None
      else do {
        parameters \<leftarrow> asArray (orEmptyArray (field operation ''parameters''));
        checked \<leftarrow> mapM (\<lambda>param. if nullish param then None else Some param) parameters;
        Some (map (\<lambda>param. field param ''name'')
                (filter (\<lambda>param. field param ''in'' = JStr ''query'') checked))
      })"

text \<open>
  \<^verbatim>\<open>operation.operationId || generateOperationId(method, pathTemplate)\<close>, as the
  argument of \<^verbatim>\<open>pascalCase\<close>, whose \<^verbatim>\<open>str.charAt\<close> only a string has.
\<close>

fun asString :: "jsval \<Rightarrow> string option" where
  "asString (JStr s) = Some s"
| "asString v = None"

definition operationIdOf :: "string \<Rightarrow> string \<Rightarrow> jsval \<Rightarrow> string option" where
  "operationIdOf pathTemplate method operation =
     (if nullish operation then None
      else if truthy (field operation ''operationId'') then asString (field operation ''operationId'')
      else Some (generateOperationId method pathTemplate))"

definition methodNameOf :: "string \<Rightarrow> string \<Rightarrow> jsval \<Rightarrow> string option" where
  "methodNameOf pathTemplate method operation =
     map_option (\<lambda>operationId. method @ pascalCase operationId)
       (operationIdOf pathTemplate method operation)"

definition jsdocOf :: "string \<Rightarrow> string \<Rightarrow> jsval \<Rightarrow> string \<Rightarrow> string list \<Rightarrow> jsval list \<Rightarrow> string" where
  "jsdocOf pathTemplate method operation methodName pathParams queryParams =
     ''  /**\<newline>''
     @ ''   * ''
     @ (if truthy (field operation ''summary'') then toStringJS (field operation ''summary'')
        else toUpperCase method @ '' '' @ pathTemplate)
     @ ''\<newline>''
     @ (if truthy (field operation ''description'')
        then ''   * '' @ toStringJS (field operation ''description'') @ ''\<newline>'' else [])
     @ concat (map (\<lambda>param. ''   * @param '' @ param @ '' Path parameter\<newline>'') pathParams)
     @ (if queryParams \<noteq> [] then ''   * @param queryParams Query parameters\<newline>'' else [])
     @ ''   * @returns URL for the '' @ methodName @ '' endpoint\<newline>''
     @ ''   */\<newline>''"

text \<open>The parameters of the signature: the path parameters, then the query object.\<close>

definition signatureParams :: "string list \<Rightarrow> jsval list \<Rightarrow> string list" where
  "signatureParams pathParams queryParams =
     map (\<lambda>param. param @ '': string | number'') pathParams
     @ (if queryParams \<noteq> []
        then [''queryParams?: { ''
              @ joinStrings ''; '' (map (\<lambda>p. toStringJS p @ ''?: any'') queryParams) @ '' }'']
        else [])"

definition methodSignatureOf :: "string \<Rightarrow> string list \<Rightarrow> jsval list \<Rightarrow> string" where
  "methodSignatureOf methodName pathParams queryParams =
     methodName @ ''('' @ joinStrings '', '' (signatureParams pathParams queryParams) @ ''): string''"

definition replaceLine :: "string \<Rightarrow> string" where
  "replaceLine param =
     ''    url = url.replace('' @ [CHR 0x27] @ ''{'' @ param @ ''}'' @ [CHR 0x27]
     @ '', String('' @ param @ ''));\<newline>''"

definition methodBodyOf :: "string \<Rightarrow> string list \<Rightarrow> jsval list \<Rightarrow> string" where
  "methodBodyOf pathTemplate pathParams queryParams =
     ''    let url = this.baseUrl + '' @ [CHR 0x27] @ pathTemplate @ [CHR 0x27] @ '';\<newline>''
     @ concat (map replaceLine pathParams)
     @ (if queryParams \<noteq> []
        then ''    if (queryParams) {\<newline>''
           @ ''      const searchParams = new URLSearchParams();\<newline>''
           @ ''      Object.entries(queryParams).forEach(([key, value]) => {\<newline>''
           @ ''        if (value !== undefined && value !== null) {\<newline>''
           @ ''          searchParams.append(key, String(value));\<newline>''
           @ ''        }\<newline>''
           @ ''      });\<newline>''
           @ ''      const queryString = searchParams.toString();\<newline>''
           @ ''      if (queryString) url += '' @ [CHR 0x27] @ ''?'' @ [CHR 0x27] @ '' + queryString;\<newline>''
           @ ''    }\<newline>''
        else [])
     @ ''    return url;''"

text \<open>The body of the inner loop of \<^verbatim>\<open>generateClientClass\<close> after the test of the method.\<close>

definition generateMethod :: "string \<Rightarrow> string \<Rightarrow> jsval \<Rightarrow> string option" where
  "generateMethod pathTemplate method operation =
     do {
       methodName \<leftarrow> methodNameOf pathTemplate method operation;
       queryParams \<leftarrow> extractQueryParameters operation;
       Some (jsdocOf pathTemplate method operation methodName
               (extractPathParameters pathTemplate) queryParams
             @ ''  '' @ methodSignatureOf methodName (extractPathParameters pathTemplate) queryParams
             @ '' {\<newline>''
             @ methodBodyOf pathTemplate (extractPathParameters pathTemplate) queryParams
             @ ''\<newline>  }'')
     }"

definition httpMethods :: "string list" where
  "httpMethods = [''get'', ''post'', ''put'', ''delete'', ''patch'']"

text \<open>The inner loop: the methods of one path item.\<close>

fun pathItemMethods :: "string \<Rightarrow> (string \<times> jsval) list \<Rightarrow> string list option" where
  "pathItemMethods pathTemplate [] = Some []"
| "pathItemMethods pathTemplate ((method, operation) # rest) =
     (if toLowerCase method \<notin> set httpMethods then pathItemMethods pathTemplate rest
      else do {
        fullMethod \<leftarrow> generateMethod pathTemplate method operation;
        methods \<leftarrow> pathItemMethods pathTemplate rest;
        Some (fullMethod # methods)
      })"

text \<open>The outer loop: the methods of every path.\<close>

fun pathsMethods :: "(string \<times> jsval) list \<Rightarrow> string list option" where
  "pathsMethods [] = Some []"
| "pathsMethods ((pathTemplate, pathItem) # rest) =
     do {
       entries \<leftarrow> objectEntries pathItem;
       methods \<leftarrow> pathItemMethods pathTemplate entries;
       others \<leftarrow> pathsMethods rest;
       Some (methods @ others)
     }"

definition clientHeader :: "string \<Rightarrow> string \<Rightarrow> jsval \<Rightarrow> string" where
  "clientHeader fileName className baseUrl =
     ''/**\<newline>''
     @ '' * Client API g'' @ [CHR 0xE9] @ ''n'' @ [CHR 0xE9] @ ''r'' @ [CHR 0xE9] @ '' pour '' @ fileName @ ''\<newline>''
     @ '' * Base URL: '' @ toStringJS baseUrl @ ''\<newline>''
     @ '' */\<newline>''
     @ ''export class '' @ className @ '' {\<newline>''
     @ ''  private baseUrl: string;\<newline>''
     @ ''\<newline>''
     @ ''  constructor(baseUrl?: string) {\<newline>''
     @ ''    this.baseUrl = (baseUrl || '' @ [CHR 0x27] @ toStringJS baseUrl @ [CHR 0x27]
     @ '').replace(/'' @ [CHR 0x5C] @ ''/$/, '' @ [CHR 0x27, CHR 0x27] @ '');\<newline>''
     @ ''  }\<newline>''
     @ ''\<newline>''
     @ ''  /**\<newline>''
     @ ''   * Obtient l'' @ [CHR 0x27] @ ''URL de base configur'' @ [CHR 0xE9] @ ''e\<newline>''
     @ ''   */\<newline>''
     @ ''  getBaseUrl(): string {\<newline>''
     @ ''    return this.baseUrl;\<newline>''
     @ ''  }\<newline>''
     @ ''\<newline>''"

text \<open>
  The file \<^verbatim>\<open>generateClientClass\<close> builds: its name in the clients directory and
  its content.
\<close>

definition clientFile ::
  "string \<Rightarrow> string \<Rightarrow> jsval \<Rightarrow> jsval \<Rightarrow> string option \<Rightarrow> (string \<times> string) option" where
  "clientFile fileName className baseUrl spec fileNameOverride =
     (if nullish spec then None
      else do {
        paths \<leftarrow> objectEntries (field spec ''paths'');
        methods \<leftarrow> pathsMethods paths;
        Some (case fileNameOverride of
                Some f \<Rightarrow> if f \<noteq> [] then f else className @ ''.ts''
              | None \<Rightarrow> className @ ''.ts'',
              clientHeader fileName className baseUrl
              @ joinStrings ''\<newline>\<newline>'' methods @ ''\<newline>}\<newline>'')
      })"

text \<open>
  \<^verbatim>\<open>generateClientClass\<close>, which writes that file: the files written and whether
  the function returned.
\<close>

definition generateClientClass ::
  "fileSystem \<Rightarrow> (string \<times> string) list \<Rightarrow> string \<Rightarrow> string \<Rightarrow> jsval \<Rightarrow> jsval \<Rightarrow> string
   \<Rightarrow> string option \<Rightarrow> (string \<times> string) list \<times> bool" where
  "generateClientClass fs written fileName className baseUrl spec clientsDir fileNameOverride =
     (case clientFile fileName className baseUrl spec fileNameOverride of
        None \<Rightarrow> ([], False)
      | Some (clientFileName, clientContent) \<Rightarrow>
          if writeOk fs written (pathJoin clientsDir clientFileName) clientContent
          then ([(pathJoin clientsDir clientFileName, clientContent)], True)
          else ([], False))"

section \<open>One document\<close>

text \<open>\<^verbatim>\<open>v?.[0]\<close> for a value that is neither null nor undefined.\<close>

fun elem0 :: "jsval \<Rightarrow> jsval" where
  "elem0 (JArr (v # vs)) = v"
| "elem0 (JStr (c # cs)) = JStr [c]"
| "elem0 (JObj kvs) = field (JObj kvs) ''0''"
| "elem0 v = JUndefined"

text \<open>\<^verbatim>\<open>spec.servers?.[0]?.url ?? ""\<close>.\<close>

definition baseUrlOf :: "jsval \<Rightarrow> jsval" where
  "baseUrlOf spec =
     (let servers = field spec ''servers'';
          first = (if nullish servers then JUndefined else elem0 servers);
          url = (if nullish first then JUndefined else field first ''url'')
      in if nullish url then JStr [] else url)"

text \<open>\<^verbatim>\<open>spec.components?.schemas || {}\<close>.\<close>

definition allSchemasOf :: "jsval \<Rightarrow> jsval" where
  "allSchemasOf spec =
     (let components = field spec ''components'';
          schemas = (if nullish components then JUndefined else field components ''schemas'')
      in if truthy schemas then schemas else JObj [])"

text \<open>
  The body of the \<^verbatim>\<open>try\<close> block of \<^verbatim>\<open>generateFromOpenAPIFiles\<close> for one parsed
  document, after the file is read and parsed: the files written, in order, and whether
  the block ran to its end (\<^term>\<open>False\<close>: it threw, and the \<^verbatim>\<open>catch\<close> of the
  document logged the error). The directory \<^verbatim>\<open>generated\<close> is the one beside the
  document. The console is outside the model.
\<close>

definition processDocument :: "fileSystem \<Rightarrow> string \<Rightarrow> jsval \<Rightarrow> (string \<times> string) list \<times> bool" where
  "processDocument fs fileName spec =
     (if nullish spec then ([], False)
      else if \<not> mkdirOk fs (pathJoin ''generated'' ''models'') then ([], False)
      else
        (case (if ownEntries (allSchemasOf spec) \<noteq> []
               then generateDTOs fs [] (allSchemasOf spec) (pathJoin ''generated'' ''models'')
               else ([], True)) of
           (dtoWrites, ok) \<Rightarrow>
             if \<not> ok then (dtoWrites, False)
             else
               (case generateClientClass fs dtoWrites fileName (pascalCase fileName @ ''Client'')
                       (baseUrlOf spec) spec ''generated'' (Some ''openApi.ts'') of
                  (clientWrites, done) \<Rightarrow> (dtoWrites @ clientWrites, done))))"

section \<open>Notions of the statements\<close>

text \<open>
  A path template written out as its segments: literal text, then a token in braces,
  and the text after the last token. The segments are well formed when no literal holds
  an opening brace and every token is non-empty and holds no closing brace.
\<close>

definition renderTemplate :: "(string \<times> string) list \<Rightarrow> string \<Rightarrow> string" where
  "renderTemplate segs rest = concat (map (\<lambda>(lit, tok). lit @ ''{'' @ tok @ ''}'') segs) @ rest"

definition wellFormedSegments :: "(string \<times> string) list \<Rightarrow> string \<Rightarrow> bool" where
  "wellFormedSegments segs rest =
     (list_all (\<lambda>(lit, tok). CHR ''{'' \<notin> set lit \<and> tok \<noteq> [] \<and> CHR ''}'' \<notin> set tok) segs
      \<and> CHR ''{'' \<notin> set rest)"

text \<open>
  The names a property reaches: the last segment of its \<^verbatim>\<open>$ref\<close>, and what the
  items of a property of type \<^verbatim>\<open>array\<close> and the properties of a property of type
  \<^verbatim>\<open>object\<close> reach.
\<close>

inductive refReachable :: "jsval \<Rightarrow> string \<Rightarrow> bool" where
  direct: "field p ''$ref'' = JStr r \<Longrightarrow> lastSegment r \<noteq> [] \<Longrightarrow> refReachable p (lastSegment r)"
| items: "field p ''type'' = JStr ''array'' \<Longrightarrow> truthy (field p ''items'') \<Longrightarrow>
          refReachable (field p ''items'') n \<Longrightarrow> refReachable p n"
| props: "field p ''type'' = JStr ''object'' \<Longrightarrow> (k, q) \<in> set (ownEntries (field p ''properties'')) \<Longrightarrow>
          refReachable q n \<Longrightarrow> refReachable p n"

code_pred refReachable .

text \<open>
  The parts of an \<^verbatim>\<open>allOf\<close>: the name of the base a \<^verbatim>\<open>$ref\<close> part refers
  to; the inline object parts (no \<^verbatim>\<open>$ref\<close>, the type \<^verbatim>\<open>object\<close>, with
  properties); the required list of a schema or part; and the properties of the inline
  parts merged in order, a later part replacing a property of the same name.
\<close>

definition partBase :: "jsval \<Rightarrow> string list" where
  "partBase part =
     (case field part ''$ref'' of
        JStr r \<Rightarrow> if lastSegment r \<noteq> [] then [lastSegment r] else []
      | _ \<Rightarrow> [])"

definition baseNames :: "jsval list \<Rightarrow> string list" where
  "baseNames parts = concat (map partBase parts)"

definition isInlinePart :: "jsval \<Rightarrow> bool" where
  "isInlinePart part =
     (\<not> truthy (field part ''$ref'') \<and> field part ''type'' = JStr ''object''
      \<and> truthy (field part ''properties''))"

definition inlineParts :: "jsval list \<Rightarrow> jsval list" where
  "inlineParts parts = filter isInlinePart parts"

definition listedRequired :: "jsval \<Rightarrow> jsval list" where
  "listedRequired v = (case orEmptyArray (field v ''required'') of JArr rs \<Rightarrow> rs | _ \<Rightarrow> [])"

definition mergedProperties :: "jsval list \<Rightarrow> (string \<times> jsval) list" where
  "mergedProperties parts =
     fold (\<lambda>part t. objAssign t (field part ''properties'')) (inlineParts parts) []"

text \<open>
  The properties a declaration is built from: those of the inline parts when the
  schema has an \<^verbatim>\<open>allOf\<close>, the schema's own otherwise.
\<close>

definition allOfParts :: "jsval \<Rightarrow> jsval list" where
  "allOfParts schema =
     (if truthy (field schema ''allOf'')
      then (case iterate (field schema ''allOf'') of Some ps \<Rightarrow> ps | None \<Rightarrow> [])
      else [])"

definition effectiveProperties :: "jsval \<Rightarrow> (string \<times> jsval) list" where
  "effectiveProperties schema =
     (if truthy (field schema ''allOf'') then mergedProperties (allOfParts schema)
      else ownEntries (field schema ''properties''))"

text \<open>
  Schemas used as examples. \<open>refTo n\<close> is the node \<^verbatim>\<open>{$ref: '#/components/schemas/n'}\<close>
  and \<open>ofType t\<close> the node \<^verbatim>\<open>{type: t}\<close>.
\<close>

definition refTo :: "string \<Rightarrow> jsval" where
  "refTo n = JObj [(''$ref'', JStr (''#/components/schemas/'' @ n))]"

definition ofType :: "string \<Rightarrow> jsval" where
  "ofType t = JObj [(''type'', JStr t)]"

text \<open>
  \<^verbatim>\<open>Dog: {allOf: [{$ref: Pet}, {type: object, properties: {bark: {type: boolean},
  owner: {$ref: User}, nick: {type: string}}, required: [bark]}], required: [owner]}\<close>
\<close>

definition dogParts :: "jsval list" where
  "dogParts =
     [refTo ''Pet'',
      JObj [(''type'', JStr ''object''),
            (''properties'', JObj [(''bark'', ofType ''boolean''),
                                   (''owner'', refTo ''User''),
                                   (''nick'', ofType ''string'')]),
            (''required'', JArr [JStr ''bark''])]]"

definition dogSchema :: jsval where
  "dogSchema = JObj [(''allOf'', JArr dogParts), (''required'', JArr [JStr ''owner''])]"

text \<open>
  \<^verbatim>\<open>Puppy: {allOf: [{$ref: Pet}, {type: object, properties: {bark: {type: boolean}}}],
  required: [bark]}\<close>
\<close>

definition puppySchema :: jsval where
  "puppySchema = JObj
     [(''allOf'', JArr
        [refTo ''Pet'',
         JObj [(''type'', JStr ''object''),
               (''properties'', JObj [(''bark'', ofType ''boolean'')])]]),
      (''required'', JArr [JStr ''bark''])]"

text \<open>
  \<^verbatim>\<open>User: {type: object, properties: {id: {type: string}, friend: {$ref: User},
  pets: {type: array, items: {$ref: Pet}}, pet: {$ref: Pet}}, required: [id]}\<close>
\<close>

definition userSchema :: jsval where
  "userSchema = JObj
     [(''type'', JStr ''object''),
      (''properties'', JObj [(''id'', ofType ''string''),
                             (''friend'', refTo ''User''),
                             (''pets'', JObj [(''type'', JStr ''array''), (''items'', refTo ''Pet'')]),
                             (''pet'', refTo ''Pet'')]),
      (''required'', JArr [JStr ''id''])]"

text \<open>
  \<^verbatim>\<open>Cat: {allOf: [{$ref: Pet}], properties: {owner: {$ref: Owner}}}\<close>
\<close>

definition catSchema :: jsval where
  "catSchema = JObj
     [(''allOf'', JArr [refTo ''Pet'']),
      (''properties'', JObj [(''owner'', refTo ''Owner'')])]"


text \<open>
  The emission of a document's schemas: whether \<^verbatim>\<open>generateDTOType\<close> returns on an
  entry, the file written for an entry, the index file, and the types the resolver
  recognizes.
\<close>

definition returnsFor :: "jsval \<Rightarrow> string \<times> jsval \<Rightarrow> bool" where
  "returnsFor schemas = (\<lambda>(schemaName, schema). generateDTOType schemaName schema schemas \<noteq> None)"

definition schemaFile :: "string \<Rightarrow> jsval \<Rightarrow> string \<times> jsval \<Rightarrow> (string \<times> string) option" where
  "schemaFile dtoDir schemas =
     (\<lambda>(schemaName, schema).
        map_option (\<lambda>dtoContent. (pathJoin dtoDir (schemaName @ ''.ts''), dtoContent))
          (generateDTOType schemaName schema schemas))"

definition indexFile :: "string \<Rightarrow> (string \<times> jsval) list \<Rightarrow> string \<times> string" where
  "indexFile dtoDir entries =
     (pathJoin dtoDir ''index.ts'',
      joinStrings ''\<newline>'' (map (\<lambda>(schemaName, schema). exportLine schemaName) entries) @ ''\<newline>'')"


text \<open>
  The files of a document in the order of the document: for every schema its file, in
  the order the schemas are declared, then the index file with one line for every schema
  in that order (none of these when the document declares no schema); and the operations
  of the document, path by path and key by key in the order they are declared.
\<close>

definition dtoFiles :: "jsval \<Rightarrow> (string \<times> string) list" where
  "dtoFiles spec =
     (if ownEntries (allSchemasOf spec) \<noteq> []
      then List.map_filter (schemaFile (pathJoin ''generated'' ''models'') (allSchemasOf spec))
             (ownEntries (allSchemasOf spec))
           @ [indexFile (pathJoin ''generated'' ''models'') (ownEntries (allSchemasOf spec))]
      else [])"

definition operationsOf :: "jsval \<Rightarrow> (string \<times> string \<times> jsval) list" where
  "operationsOf spec =
     concat (map (\<lambda>(pathTemplate, pathItem).
                    map (\<lambda>(method, operation). (pathTemplate, method, operation))
                      (filter (\<lambda>(method, operation). toLowerCase method \<in> set httpMethods)
                         (ownEntries pathItem)))
               (ownEntries (field spec ''paths'')))"

text \<open>
  The names a property refers to, in the order of the property: its own \<^verbatim>\<open>$ref\<close>,
  then those of its items, then those of its properties in their order; the name of the
  schema itself left out. And the elements of a list in the order of their first
  occurrence.
\<close>

function encounteredRefs :: "string \<Rightarrow> jsval \<Rightarrow> string list" where
  "encounteredRefs name p =
     (case field p ''$ref'' of
        JStr r \<Rightarrow> if lastSegment r \<noteq> [] \<and> lastSegment r \<noteq> name then [lastSegment r] else []
      | _ \<Rightarrow> [])
     @ (if field p ''type'' = JStr ''array'' \<and> truthy (field p ''items'')
        then encounteredRefs name (field p ''items'') else [])
     @ (if field p ''type'' = JStr ''object'' \<and> truthy (field p ''properties'')
        then concat (map (\<lambda>q. encounteredRefs name q) (map snd (ownEntries (field p ''properties''))))
        else [])"
  by pat_completeness auto
termination
proof (relation "measure (\<lambda>(name, p). size p)", goal_cases)
  case 1
  show ?case by simp
next
  case (2 name p)
  then show ?case by (simp add: size_field_less truthy_not_undefined)
next
  case (3 name p q)
  from 3 obtain k where "(k, q) \<in> set (ownEntries (field p ''properties''))"
    by auto
  then have "size q \<le> size (field p ''properties'')"
    by (rule size_ownEntries_le)
  moreover from 3 have "size (field p ''properties'') < size p"
    by (simp add: size_field_less truthy_not_undefined)
  ultimately show ?case by simp
qed

declare encounteredRefs.simps [simp del]

definition firstOccurrences :: "'a list \<Rightarrow> 'a list" where
  "firstOccurrences xs = fold setAdd xs []"

text \<open>
  Two file systems: one on which every call succeeds, and one that accepts only what
  lies under \<^verbatim>\<open>generated\<close>.
\<close>

definition acceptingFileSystem :: fileSystem where
  "acceptingFileSystem = \<lparr>mkdirOk = (\<lambda>dir. True), writeOk = (\<lambda>written path content. True)\<rparr>"

definition generatedOnlyFileSystem :: fileSystem where
  "generatedOnlyFileSystem =
     \<lparr>mkdirOk = (\<lambda>dir. take 10 dir = ''generated/''),
      writeOk = (\<lambda>written path content. take 10 path = ''generated/'')\<rparr>"



text \<open>
  A document on which generation runs to its end:
  \<^verbatim>\<open>schemas: {Pet: {type: object, properties: {name: {type: string},
  owner: {$ref: Owner}}, required: [name]}, Owner: {type: object, properties: {pets:
  {type: array, items: {$ref: Pet}}}}, Kind: {enum: [cat, dog]}}\<close> and
  \<^verbatim>\<open>paths: {/pets: {get: {}, post: {operationId: addPet}}, /pets/{id}: {get: {}}}\<close>.
\<close>

definition petsSpec :: jsval where
  "petsSpec = JObj
     [(''paths'', JObj
        [(''/pets'', JObj [(''get'', JObj []),
                           (''post'', JObj [(''operationId'', JStr ''addPet'')])]),
         (''/pets/{id}'', JObj [(''get'', JObj [])])]),
      (''components'', JObj
        [(''schemas'', JObj
           [(''Pet'', JObj [(''type'', JStr ''object''),
                            (''properties'', JObj [(''name'', ofType ''string''),
                                                   (''owner'', refTo ''Owner'')]),
                            (''required'', JArr [JStr ''name''])]),
            (''Owner'', JObj [(''type'', JStr ''object''),
                              (''properties'', JObj
                                 [(''pets'', JObj [(''type'', JStr ''array''),
                                                   (''items'', refTo ''Pet'')])])]),
            (''Kind'', JObj [(''enum'', JArr [JStr ''cat'', JStr ''dog''])])])])]"

text \<open>The literals an enum list renders as they are written.\<close>

definition isScalarLiteral :: "jsval \<Rightarrow> bool" where
  "isScalarLiteral v = (case v of JStr s \<Rightarrow> True | JNum n \<Rightarrow> True | JBool b \<Rightarrow> True | _ \<Rightarrow> False)"

definition literalText :: "jsval \<Rightarrow> string" where
  "literalText v =
     (case v of
        JStr s \<Rightarrow> [CHR 0x27] @ s @ [CHR 0x27]
      | JNum n \<Rightarrow> showInt n
      | JBool b \<Rightarrow> (if b then ''true'' else ''false'')
      | _ \<Rightarrow> [])"



section \<open>Lemmas on the regular expressions\<close>

lemma braceMatch_not_brace: "c \<noteq> CHR ''{'' \<Longrightarrow> braceMatch (c # cs) = None"
  by (simp add: braceMatch_def)

lemma braceMatch_token:
  assumes "tok \<noteq> []" "CHR ''}'' \<notin> set tok"
  shows "braceMatch (CHR ''{'' # tok @ CHR ''}'' # rest) = Some (tok, rest)"
proof -
  have t: "takeWhile (\<lambda>x. x \<noteq> CHR ''}'') (tok @ CHR ''}'' # rest) = tok"
    using assms(2) by (induction tok) auto
  have d: "dropWhile (\<lambda>x. x \<noteq> CHR ''}'') (tok @ CHR ''}'' # rest) = CHR ''}'' # rest"
    using assms(2) by (induction tok) auto
  show ?thesis using assms(1) by (simp add: braceMatch_def t d)
qed

lemma matchBraces_literal:
  "CHR ''{'' \<notin> set lit \<Longrightarrow> matchBraces (lit @ s) = matchBraces s"
  by (induction lit) (auto simp: braceMatch_not_brace)

lemma matchBraces_token:
  "tok \<noteq> [] \<Longrightarrow> CHR ''}'' \<notin> set tok \<Longrightarrow>
   matchBraces (CHR ''{'' # tok @ CHR ''}'' # s) = (CHR ''{'' # tok @ ''}'') # matchBraces s"
  by (simp add: braceMatch_token)

lemma matchBraces_no_brace: "CHR ''{'' \<notin> set s \<Longrightarrow> matchBraces s = []"
  using matchBraces_literal [of s "[]"] by simp

lemma matchBraces_renderTemplate:
  "wellFormedSegments segs rest \<Longrightarrow>
   matchBraces (renderTemplate segs rest) = map (\<lambda>(lit, tok). CHR ''{'' # tok @ ''}'') segs"
proof (induction segs)
  case Nil
  then show ?case by (simp add: renderTemplate_def wellFormedSegments_def matchBraces_no_brace)
next
  case (Cons seg segs)
  obtain lit tok where seg: "seg = (lit, tok)" by (cases seg)
  from Cons.prems seg have wf: "CHR ''{'' \<notin> set lit" "tok \<noteq> []" "CHR ''}'' \<notin> set tok"
    and wfs: "wellFormedSegments segs rest"
    by (simp_all add: wellFormedSegments_def)
  have "matchBraces (renderTemplate (seg # segs) rest)
        = matchBraces (lit @ CHR ''{'' # tok @ CHR ''}'' # renderTemplate segs rest)"
    by (simp add: renderTemplate_def seg)
  also have "\<dots> = matchBraces (CHR ''{'' # tok @ CHR ''}'' # renderTemplate segs rest)"
    using wf(1) by (rule matchBraces_literal)
  also have "\<dots> = (CHR ''{'' # tok @ ''}'') # matchBraces (renderTemplate segs rest)"
    using wf(2,3) by (rule matchBraces_token)
  finally show ?case
    using Cons.IH [OF wfs] by (simp add: seg)
qed

lemma extractPathParameters_renderTemplate:
  assumes "wellFormedSegments segs rest"
  shows "extractPathParameters (renderTemplate segs rest) = map snd segs"
proof -
  have "map (\<lambda>m. butlast (tl m)) (map (\<lambda>(lit, tok). CHR ''{'' # tok @ ''}'') segs) = map snd segs"
    by (induction segs) (auto simp: butlast_append)
  then show ?thesis
    using matchBraces_renderTemplate [OF assms]
    by (auto simp: extractPathParameters_def Let_def)
qed

lemma generateMethod_parts:
  assumes "generateMethod pathTemplate method operation = Some text"
  shows "\<exists>methodName queryParams.
           methodNameOf pathTemplate method operation = Some methodName
           \<and> extractQueryParameters operation = Some queryParams
           \<and> text = jsdocOf pathTemplate method operation methodName
                      (extractPathParameters pathTemplate) queryParams
                    @ ''  '' @ methodSignatureOf methodName (extractPathParameters pathTemplate) queryParams
                    @ '' {\<newline>''
                    @ methodBodyOf pathTemplate (extractPathParameters pathTemplate) queryParams
                    @ ''\<newline>  }''"
  using assms by (auto simp: generateMethod_def split: bind_splits)

section \<open>Lemmas on the operation analyzer\<close>

lemma replaceBraces_literal:
  "CHR ''{'' \<notin> set lit \<Longrightarrow> replaceBraces (lit @ s) = lit @ replaceBraces s"
  by (induction lit) (auto simp: braceMatch_not_brace)

lemma replaceBraces_token:
  "tok \<noteq> [] \<Longrightarrow> CHR ''}'' \<notin> set tok \<Longrightarrow>
   replaceBraces (CHR ''{'' # tok @ CHR ''}'' # s) = ''By'' @ replaceBraces s"
  by (simp add: braceMatch_token)

lemma replaceBraces_no_brace: "CHR ''{'' \<notin> set s \<Longrightarrow> replaceBraces s = s"
  using replaceBraces_literal [of s "[]"] by simp

lemma replaceBraces_renderTemplate:
  "wellFormedSegments segs rest \<Longrightarrow>
   replaceBraces (renderTemplate segs rest) = concat (map (\<lambda>(lit, tok). lit @ ''By'') segs) @ rest"
proof (induction segs)
  case Nil
  then show ?case by (simp add: renderTemplate_def wellFormedSegments_def replaceBraces_no_brace)
next
  case (Cons seg segs)
  obtain lit tok where seg: "seg = (lit, tok)" by (cases seg)
  from Cons.prems seg have wf: "CHR ''{'' \<notin> set lit" "tok \<noteq> []" "CHR ''}'' \<notin> set tok"
    and wfs: "wellFormedSegments segs rest"
    by (simp_all add: wellFormedSegments_def)
  have "replaceBraces (renderTemplate (seg # segs) rest)
        = replaceBraces (lit @ CHR ''{'' # tok @ CHR ''}'' # renderTemplate segs rest)"
    by (simp add: renderTemplate_def seg)
  also have "\<dots> = lit @ replaceBraces (CHR ''{'' # tok @ CHR ''}'' # renderTemplate segs rest)"
    using wf(1) by (rule replaceBraces_literal)
  also have "\<dots> = lit @ ''By'' @ replaceBraces (renderTemplate segs rest)"
    by (simp add: replaceBraces_token [OF wf(2,3)] del: replaceBraces.simps)
  finally show ?case
    using Cons.IH [OF wfs] by (simp add: seg)
qed

lemma isAlnum_By: "filter isAlnum ''By'' = ''By''"
  by (simp add: isAlnum_def lowerLetters_def upperLetters_def digitChars_def)

lemma generateOperationId_renderTemplate:
  assumes "wellFormedSegments segs rest"
  shows "generateOperationId method (renderTemplate segs rest)
         = concat (map (\<lambda>(lit, tok). filter isAlnum lit @ ''By'') segs) @ filter isAlnum rest"
proof -
  have "filter isAlnum (concat (map (\<lambda>(lit, tok). lit @ ''By'') segs))
        = concat (map (\<lambda>(lit, tok). filter isAlnum lit @ ''By'') segs)"
    by (induction segs) (auto simp: isAlnum_By simp del: filter.simps)
  then show ?thesis
    by (simp add: generateOperationId_def replaceBraces_renderTemplate [OF assms])
qed

lemma mapM_append:
  "mapM f (xs @ ys) = do { a \<leftarrow> mapM f xs; b \<leftarrow> mapM f ys; Some (a @ b) }"
  by (induction xs) (auto split: bind_splits)

lemma pathItemMethods_filter:
  "pathItemMethods p entries
   = mapM (\<lambda>(m, operation). generateMethod p m operation)
       (filter (\<lambda>(m, operation). toLowerCase m \<in> set httpMethods) entries)"
  by (induction entries) (auto split: bind_splits)

lemma pathsMethods_flat:
  assumes "list_all (\<lambda>(p, pathItem). \<not> nullish pathItem) paths"
  shows "pathsMethods paths
   = mapM (\<lambda>(p, m, operation). generateMethod p m operation)
       (concat (map (\<lambda>(p, pathItem). map (\<lambda>(m, operation). (p, m, operation))
           (filter (\<lambda>(m, operation). toLowerCase m \<in> set httpMethods) (ownEntries pathItem))) paths))"
  using assms
proof (induction paths)
  case Nil
  then show ?case by simp
next
  case (Cons a paths)
  obtain p pathItem where a: "a = (p, pathItem)" by (cases a)
  have m: "mapM (\<lambda>(p, m, operation). generateMethod p m operation) (map (Pair p) es)
           = mapM (\<lambda>(m, operation). generateMethod p m operation) es" for es
    by (induction es) auto
  from Cons a show ?case
    by (simp add: mapM_append m pathItemMethods_filter objectEntries_def)
qed

lemma toLowerCase_httpMethods: "m \<in> set httpMethods \<Longrightarrow> toLowerCase m = m"
  by (auto simp: httpMethods_def toLowerCase_def toLowerChar_def upperLetters_def lowerLetters_def)

section \<open>Lemmas on the DTO emitter\<close>

lemma lastSegment_Nil [simp]: "lastSegment [] = []"
  by (simp add: lastSegment_def)

lemma set_setAdd [simp]: "set (setAdd x xs) = insert x (set xs)"
  by (auto simp: setAdd_def)

lemma distinct_setAdd [simp]: "distinct (setAdd x xs) = distinct xs"
  by (auto simp: setAdd_def)

lemma set_fold_setAdd [simp]: "set (fold setAdd ys xs) = set xs \<union> set ys"
  by (induction ys arbitrary: xs) auto

lemma distinct_fold_setAdd [simp]: "distinct (fold setAdd ys xs) = distinct xs"
  by (induction ys arbitrary: xs) auto

lemma fold_setAdd_append: "fold setAdd (ys @ zs) xs = fold setAdd zs (fold setAdd ys xs)"
  by simp

lemma ownEntries_falsy: "\<not> truthy v \<Longrightarrow> ownEntries v = []"
  by (cases v) auto

lemma mapM_list_all2:
  "mapM f xs = Some ys \<Longrightarrow> list_all2 (\<lambda>x y. f x = Some y) xs ys"
  by (induction xs arbitrary: ys) (auto split: bind_splits)

lemma keys_objSet: "fst ` set (objSet kvs k v) = insert k (fst ` set kvs)"
proof (cases "k \<in> fst ` set kvs")
  case True
  have "fst ` set (map (\<lambda>(k', v'). if k' = k then (k', v) else (k', v')) kvs) = fst ` set kvs"
    by (induction kvs) (auto split: if_splits)
  with True show ?thesis by (auto simp: objSet_def)
next
  case False
  have "set (takeWhile P kvs @ [(k, v)] @ dropWhile P kvs) = insert (k, v) (set kvs)" for P
  proof -
    have "set (takeWhile P kvs @ dropWhile P kvs) = set kvs" by simp
    then show ?thesis by (simp del: takeWhile_dropWhile_id)
  qed
  with False show ?thesis by (simp add: objSet_def)
qed

lemma keys_objAssign:
  "fst ` set (objAssign t src) = fst ` set t \<union> fst ` set (ownEntries src)"
proof -
  have "fst ` set (fold (\<lambda>(k, v) t. objSet t k v) es t) = fst ` set t \<union> fst ` set es" for es
    by (induction es arbitrary: t) (simp_all add: keys_objSet split_def)
  then show ?thesis by (simp add: objAssign_def)
qed

lemma keys_mergedProperties:
  "fst ` set (mergedProperties parts)
   = (\<Union>part \<in> set (inlineParts parts). fst ` set (ownEntries (field part ''properties'')))"
proof -
  have "fst ` set (fold (\<lambda>part t. objAssign t (field part ''properties'')) ps t)
        = fst ` set t \<union> (\<Union>part \<in> set ps. fst ` set (ownEntries (field part ''properties'')))" for ps t
    by (induction ps arbitrary: t) (simp_all add: keys_objAssign Un_assoc)
  from this [of "inlineParts parts" "[]"] show ?thesis by (simp add: mergedProperties_def)
qed

lemma allOfPart_Some:
  assumes "allOfPart part st = Some st'"
  shows "inheritance st' = inheritance st @ partBase part
         \<and> usedRefs st' = fold setAdd (partBase part) (usedRefs st)
         \<and> properties st' = (if isInlinePart part
                               then objAssign (properties st) (field part ''properties'')
                               else properties st)
         \<and> set (requiredProps st') = set (requiredProps st)
               \<union> (if isInlinePart part then set (listedRequired part) else {})"
proof (cases "truthy (field part ''$ref'')")
  case True
  with assms obtain r where r: "field part ''$ref'' = JStr r"
    by (cases "field part ''$ref''") (auto simp: allOfPart_def split: if_splits)
  with True assms show ?thesis
    by (auto simp: allOfPart_def partBase_def isInlinePart_def split: if_splits)
next
  case False
  then have pb: "partBase part = []"
    by (cases "field part ''$ref''") (auto simp: partBase_def)
  show ?thesis
  proof (cases "isInlinePart part")
    case True
    with assms False obtain rs where rs: "orEmptyArray (field part ''required'') = JArr rs"
      by (cases "orEmptyArray (field part ''required'')")
         (auto simp: allOfPart_def isInlinePart_def split: if_splits)
    with assms False True show ?thesis
      by (auto simp: allOfPart_def isInlinePart_def listedRequired_def pb split: if_splits)
  next
    case no: False
    with assms False show ?thesis
      by (auto simp: allOfPart_def isInlinePart_def pb split: if_splits)
  qed
qed

lemma forEachM_allOfPart:
  assumes "forEachM allOfPart parts st = Some st'"
  shows "inheritance st' = inheritance st @ baseNames parts
         \<and> usedRefs st' = fold setAdd (baseNames parts) (usedRefs st)
         \<and> properties st' = fold (\<lambda>part t. objAssign t (field part ''properties''))
                               (inlineParts parts) (properties st)
         \<and> set (requiredProps st') = set (requiredProps st)
               \<union> (\<Union>part \<in> set (inlineParts parts). set (listedRequired part))"
  using assms
proof (induction parts arbitrary: st)
  case Nil
  then show ?case by (simp add: baseNames_def inlineParts_def)
next
  case (Cons part parts)
  from Cons.prems obtain st1 where s1: "allOfPart part st = Some st1"
    and s2: "forEachM allOfPart parts st1 = Some st'"
    by (auto split: bind_splits)
  from allOfPart_Some [OF s1] Cons.IH [OF s2] show ?case
    by (auto simp: baseNames_def inlineParts_def)
qed

lemma refReachable_unfold:
  "refReachable p n \<longleftrightarrow>
     (\<exists>r. field p ''$ref'' = JStr r \<and> lastSegment r \<noteq> [] \<and> n = lastSegment r)
     \<or> (field p ''type'' = JStr ''array'' \<and> truthy (field p ''items'')
         \<and> refReachable (field p ''items'') n)
     \<or> (field p ''type'' = JStr ''object''
         \<and> (\<exists>k q. (k, q) \<in> set (ownEntries (field p ''properties'')) \<and> refReachable q n))"
  by (subst refReachable.simps) auto

lemma forEachM_collect:
  assumes "\<And>x u u'. x \<in> set xs \<Longrightarrow> f x u = Some u' \<Longrightarrow>
             set u' = set u \<union> R x \<and> (distinct u \<longrightarrow> distinct u')"
    and "forEachM f xs u = Some u'"
  shows "set u' = set u \<union> (\<Union>x \<in> set xs. R x) \<and> (distinct u \<longrightarrow> distinct u')"
  using assms
proof (induction xs arbitrary: u)
  case Nil
  then show ?case by simp
next
  case (Cons x xs)
  from Cons.prems(2) obtain u1 where u1: "f x u = Some u1" and rest: "forEachM f xs u1 = Some u'"
    by (auto split: bind_splits)
  from Cons.prems(1) [OF _ u1] have a: "set u1 = set u \<union> R x" "distinct u \<longrightarrow> distinct u1"
    by simp_all
  have "set u' = set u1 \<union> (\<Union>x \<in> set xs. R x) \<and> (distinct u1 \<longrightarrow> distinct u')"
    by (rule Cons.IH [OF _ rest]) (rule Cons.prems(1), simp_all)
  with a show ?case by auto
qed

lemma collectRefs_Some:
  "collectRefs name p used = Some used' \<Longrightarrow>
   set used' = set used \<union> {n. refReachable p n \<and> n \<noteq> name} \<and> (distinct used \<longrightarrow> distinct used')"
proof (induction p arbitrary: used used' rule: measure_induct_rule [of size])
  case (less p)
  from less.prems have nn: "\<not> nullish p"
    by (subst (asm) collectRefs.simps) (auto split: if_splits)
  define Dr where "Dr = {n. \<exists>r. field p ''$ref'' = JStr r \<and> lastSegment r \<noteq> [] \<and> n = lastSegment r}"
  define It where "It = (if field p ''type'' = JStr ''array'' \<and> truthy (field p ''items'')
                       then {n. refReachable (field p ''items'') n} else {})"
  define Pr where "Pr = (if field p ''type'' = JStr ''object'' \<and> truthy (field p ''properties'')
                       then (\<Union>q \<in> set (map snd (ownEntries (field p ''properties''))). {n. refReachable q n})
                       else {})"
  have reach: "{n. refReachable p n} = Dr \<union> It \<union> Pr"
  proof -
    have "ownEntries (field p ''properties'') = []" if "\<not> truthy (field p ''properties'')"
      using that by (rule ownEntries_falsy)
    then show ?thesis
      unfolding Dr_def It_def Pr_def
      by (subst refReachable_unfold) (force split: if_splits)
  qed
  from less.prems nn obtain u1 u2 where
    s1: "(if truthy (field p ''$ref'')
          then map_option (\<lambda>refName. if refName \<noteq> [] \<and> refName \<noteq> name then setAdd refName used else used)
                 (refNameOf (field p ''$ref''))
          else Some used) = Some u1"
    and s2: "(if field p ''type'' = JStr ''array'' \<and> truthy (field p ''items'')
              then collectRefs name (field p ''items'') u1 else Some u1) = Some u2"
    and s3: "(if field p ''type'' = JStr ''object'' \<and> truthy (field p ''properties'')
              then forEachM (\<lambda>p u. collectRefs name p u)
                     (map snd (ownEntries (field p ''properties''))) u2
              else Some u2) = Some used'"
    by (subst (asm) collectRefs.simps) (auto split: bind_splits if_splits)
  have p1: "set u1 = set used \<union> (Dr - {name}) \<and> (distinct used \<longrightarrow> distinct u1)"
  proof (cases "truthy (field p ''$ref'')")
    case True
    with s1 obtain r where r: "field p ''$ref'' = JStr r"
      by (cases "field p ''$ref''") (auto split: if_splits)
    with True s1 show ?thesis
      unfolding Dr_def by (auto split: if_splits)
  next
    case False
    then have "Dr = {}"
      unfolding Dr_def by (cases "field p ''$ref''") auto
    with False s1 show ?thesis by simp
  qed
  have p2: "set u2 = set u1 \<union> (It - {name}) \<and> (distinct u1 \<longrightarrow> distinct u2)"
  proof (cases "field p ''type'' = JStr ''array'' \<and> truthy (field p ''items'')")
    case True
    then have "size (field p ''items'') < size p"
      by (simp add: size_field_less truthy_not_undefined)
    from less.IH [OF this] True s2 show ?thesis
      unfolding It_def by auto
  next
    case False
    with s2 show ?thesis unfolding It_def by auto
  qed
  have p3: "set used' = set u2 \<union> (Pr - {name}) \<and> (distinct u2 \<longrightarrow> distinct used')"
  proof (cases "field p ''type'' = JStr ''object'' \<and> truthy (field p ''properties'')")
    case True
    have small: "size q < size p" if "q \<in> set (map snd (ownEntries (field p ''properties'')))" for q
    proof -
      from that obtain k where "(k, q) \<in> set (ownEntries (field p ''properties''))" by auto
      then have "size q \<le> size (field p ''properties'')" by (rule size_ownEntries_le)
      moreover from True have "size (field p ''properties'') < size p"
        by (simp add: size_field_less truthy_not_undefined)
      ultimately show ?thesis by simp
    qed
    from True s3 have f: "forEachM (\<lambda>p u. collectRefs name p u)
                     (map snd (ownEntries (field p ''properties''))) u2 = Some used'"
      by simp
    have "set used' = set u2 \<union> (\<Union>q \<in> set (map snd (ownEntries (field p ''properties''))).
                                     {n. refReachable q n \<and> n \<noteq> name})
          \<and> (distinct u2 \<longrightarrow> distinct used')"
      by (rule forEachM_collect [OF _ f]) (rule less.IH, rule small, assumption+)
    with True show ?thesis unfolding Pr_def by auto
  next
    case False
    with s3 show ?thesis unfolding Pr_def by auto
  qed
  from p1 p2 p3 reach show ?case by auto
qed

lemma forEachM_collectRefs:
  assumes "forEachM (collectRefs name) ps used = Some used'"
  shows "set used' = set used \<union> {n. n \<noteq> name \<and> (\<exists>p \<in> set ps. refReachable p n)}
         \<and> (distinct used \<longrightarrow> distinct used')"
proof -
  have "set used' = set used \<union> (\<Union>p \<in> set ps. {n. refReachable p n \<and> n \<noteq> name})
        \<and> (distinct used \<longrightarrow> distinct used')"
    by (rule forEachM_collect [OF _ assms]) (rule collectRefs_Some, assumption)
  then show ?thesis by auto
qed

lemma collectState_Some:
  assumes "collectState name schema = Some st"
  shows "\<exists>required0. iterate (orEmptyArray (field schema ''required'')) = Some required0
         \<and> inheritance st = baseNames (allOfParts schema)
         \<and> properties st = effectiveProperties schema
         \<and> distinct (usedRefs st)
         \<and> set (usedRefs st) = set (baseNames (allOfParts schema))
              \<union> {n. n \<noteq> name \<and> (\<exists>p \<in> set (map snd (effectiveProperties schema)). refReachable p n)}
         \<and> set (requiredProps st) = set required0
              \<union> (\<Union>part \<in> set (inlineParts (allOfParts schema)). set (listedRequired part))"
proof -
  from assms obtain required0 st0 refs where
    r0: "iterate (orEmptyArray (field schema ''required'')) = Some required0"
    and s0: "gatherProperties schema required0 = Some st0"
    and cr: "forEachM (collectRefs name) (map snd (properties st0)) (usedRefs st0) = Some refs"
    and st: "st = st0\<lparr>usedRefs := refs\<rparr>"
    by (auto simp: collectState_def split: bind_splits)
  have base: "inheritance st0 = baseNames (allOfParts schema)
        \<and> properties st0 = effectiveProperties schema
        \<and> usedRefs st0 = fold setAdd (baseNames (allOfParts schema)) []
        \<and> set (requiredProps st0) = set required0
              \<union> (\<Union>part \<in> set (inlineParts (allOfParts schema)). set (listedRequired part))"
  proof (cases "truthy (field schema ''allOf'')")
    case True
    with s0 obtain parts where it: "iterate (field schema ''allOf'') = Some parts"
      and fe: "forEachM allOfPart parts
              \<lparr>usedRefs = [], inheritance = [], properties = [],
               requiredProps = fold setAdd required0 []\<rparr> = Some st0"
      by (auto simp: gatherProperties_def split: bind_splits)
    from True it have ap: "allOfParts schema = parts"
      by (simp add: allOfParts_def)
    from forEachM_allOfPart [OF fe] True show ?thesis
      by (simp add: ap effectiveProperties_def mergedProperties_def)
  next
    case False
    with s0 obtain rs where rs: "asArray (orEmptyArray (field schema ''required'')) = Some rs"
      and st0: "st0 = \<lparr>usedRefs = [], inheritance = [],
                  properties = (if truthy (field schema ''properties'')
                                then ownEntries (field schema ''properties'') else []),
                  requiredProps = fold setAdd rs (fold setAdd required0 [])\<rparr>"
      by (auto simp: gatherProperties_def split: bind_splits)
    from rs r0 have "rs = required0"
      by (cases "orEmptyArray (field schema ''required'')") auto
    with False st0 show ?thesis
      by (auto simp: allOfParts_def effectiveProperties_def baseNames_def inlineParts_def
            ownEntries_falsy)
  qed
  from forEachM_collectRefs [OF cr] base
  have "distinct refs" and "set refs = set (baseNames (allOfParts schema))
              \<union> {n. n \<noteq> name \<and> (\<exists>p \<in> set (map snd (effectiveProperties schema)). refReachable p n)}"
    by auto
  with base r0 st show ?thesis by simp
qed

lemma generateDTOType_interface:
  assumes "\<not> truthy (field schema ''enum'')"
    and "generateDTOType name schema allSchemas = Some content"
  shows "\<exists>st body. collectState name schema = Some st \<and> propLines st allSchemas = Some body
           \<and> content = importSection (usedRefs st) @ ''export interface '' @ name
                        @ extendsLine (inheritance st) @ '' {\<newline>'' @ concat body @ ''}\<newline>''"
  using assms by (auto simp: generateDTOType_def split: if_splits bind_splits)

lemma propLines_Some:
  assumes "propLines st allSchemas = Some body"
  shows "list_all2 (\<lambda>(k, v) line. \<exists>t. getTypeScriptType v allSchemas = Some t
                      \<and> line = propLine k (JStr k \<in> set (requiredProps st)) t)
           (properties st) body"
proof -
  from assms have "list_all2 (\<lambda>x y. (case x of (propName, propSchema) \<Rightarrow>
             map_option (propLine propName (setHas (requiredProps st) (JStr propName)))
               (getTypeScriptType propSchema allSchemas)) = Some y) (properties st) body"
    unfolding propLines_def by (rule mapM_list_all2)
  then show ?thesis
    by (rule list_all2_mono) (auto simp: setHas_def)
qed

lemma importLine_eq_iff: "importLine a = importLine b \<longleftrightarrow> a = b"
proof
  assume e: "importLine a = importLine b"
  then have "length (importLine a) = length (importLine b)" by simp
  then have l: "length a = length b" by (simp add: importLine_def)
  from e have "a @ ('' } from '' @ [CHR 0x27] @ ''./'' @ a @ [CHR 0x27] @ '';'')
             = b @ ('' } from '' @ [CHR 0x27] @ ''./'' @ b @ [CHR 0x27] @ '';'')"
    by (simp add: importLine_def)
  with l show "a = b" using append_eq_append_conv [of a b] by blast
qed simp

lemma count_importLine:
  "distinct refs \<Longrightarrow>
   count_list (map importLine refs) (importLine n) = (if n \<in> set refs then 1 else 0)"
  by (induction refs) (auto simp: importLine_eq_iff)

section \<open>Lemmas on the emission of a document\<close>

lemma dtoLoop_prefix:
  "\<exists>k \<le> length entries.
     fst (dtoLoop fs dtoDir schemas entries dtoExports written)
       = List.map_filter (schemaFile dtoDir schemas) (take k entries)
         @ (if snd (dtoLoop fs dtoDir schemas entries dtoExports written)
            then [(pathJoin dtoDir ''index.ts'',
                   joinStrings ''\<newline>''
                     (dtoExports @ map (\<lambda>(schemaName, schema). exportLine schemaName) entries)
                   @ ''\<newline>'')]
            else [])
     \<and> list_all (returnsFor schemas) (take k entries)
     \<and> (snd (dtoLoop fs dtoDir schemas entries dtoExports written)
          \<longrightarrow> k = length entries \<and> list_all (returnsFor schemas) entries)"
proof (induction entries arbitrary: dtoExports written)
  case Nil
  show ?case by simp
next
  case (Cons e entries)
  obtain schemaName schema where e: "e = (schemaName, schema)" by (cases e)
  show ?case
  proof (cases "generateDTOType schemaName schema schemas")
    case None
    then have "dtoLoop fs dtoDir schemas (e # entries) dtoExports written = ([], False)"
      by (simp add: e)
    then show ?thesis
      by (intro exI [of _ 0]) simp
  next
    case (Some dtoContent)
    show ?thesis
    proof (cases "writeOk fs written (pathJoin dtoDir (schemaName @ ''.ts'')) dtoContent")
      case False
      with Some have "dtoLoop fs dtoDir schemas (e # entries) dtoExports written = ([], False)"
        by (simp add: e)
      then show ?thesis
        by (intro exI [of _ 0]) simp
    next
      case True
      define r where "r = dtoLoop fs dtoDir schemas entries (dtoExports @ [exportLine schemaName])
                    (written @ [(pathJoin dtoDir (schemaName @ ''.ts''), dtoContent)])"
      from Cons.IH [of "dtoExports @ [exportLine schemaName]"
                       "written @ [(pathJoin dtoDir (schemaName @ ''.ts''), dtoContent)]"]
      obtain k where k: "k \<le> length entries"
        and f: "fst r = List.map_filter (schemaFile dtoDir schemas) (take k entries)
         @ (if snd r
            then [(pathJoin dtoDir ''index.ts'',
                   joinStrings ''\<newline>''
                     ((dtoExports @ [exportLine schemaName])
                      @ map (\<lambda>(schemaName, schema). exportLine schemaName) entries)
                   @ ''\<newline>'')]
            else [])"
        and a: "list_all (returnsFor schemas) (take k entries)"
        and c: "snd r \<longrightarrow> k = length entries \<and> list_all (returnsFor schemas) entries"
        unfolding r_def by blast
      from Some True have d: "dtoLoop fs dtoDir schemas (e # entries) dtoExports written
          = ((pathJoin dtoDir (schemaName @ ''.ts''), dtoContent) # fst r, snd r)"
        by (simp add: e r_def split: prod.splits)
      have sf: "schemaFile dtoDir schemas e = Some (pathJoin dtoDir (schemaName @ ''.ts''), dtoContent)"
        by (simp add: schemaFile_def e Some)
      have rf: "returnsFor schemas e"
        by (simp add: returnsFor_def e Some)
      show ?thesis
        unfolding d
        by (intro exI [of _ "Suc k"]) (use k f a c sf rf in \<open>simp add: e\<close>)
    qed
  qed
qed





lemma pathsMethods_Some_items:
  "pathsMethods paths = Some methods \<Longrightarrow> list_all (\<lambda>(p, pathItem). \<not> nullish pathItem) paths"
proof (induction paths arbitrary: methods)
  case Nil
  then show ?case by simp
next
  case (Cons a paths)
  obtain p pathItem where a: "a = (p, pathItem)" by (cases a)
  from Cons.prems a obtain others where "\<not> nullish pathItem" and "pathsMethods paths = Some others"
    by (auto simp: objectEntries_def split: bind_splits if_splits)
  with Cons.IH a show ?case by simp
qed

lemma clientFile_Some:
  assumes "clientFile fileName className baseUrl spec (Some ''openApi.ts'') = Some (f, client)"
  shows "f = ''openApi.ts''
         \<and> (\<exists>methods. mapM (\<lambda>(p, m, operation). generateMethod p m operation) (operationsOf spec)
                          = Some methods
                \<and> client = clientHeader fileName className baseUrl
                           @ joinStrings ''\<newline>\<newline>'' methods @ ''\<newline>}\<newline>'')"
proof -
  from assms obtain paths methods where
    p: "objectEntries (field spec ''paths'') = Some paths"
    and m: "pathsMethods paths = Some methods"
    and f: "f = ''openApi.ts''"
    and c: "client = clientHeader fileName className baseUrl
                           @ joinStrings ''\<newline>\<newline>'' methods @ ''\<newline>}\<newline>''"
    by (auto simp: clientFile_def split: if_splits bind_splits)
  from p have pe: "paths = ownEntries (field spec ''paths'')"
    by (auto simp: objectEntries_def split: if_splits)
  from pathsMethods_flat [OF pathsMethods_Some_items [OF m]] m
  have "mapM (\<lambda>(p, m, operation). generateMethod p m operation) (operationsOf spec) = Some methods"
    by (simp add: operationsOf_def pe)
  with f c show ?thesis by blast
qed

lemma processDocument_complete:
  assumes "snd (processDocument fs fileName spec)"
  shows "\<exists>client methods.
           fst (processDocument fs fileName spec) = dtoFiles spec @ [(''generated/openApi.ts'', client)]
           \<and> mapM (\<lambda>(p, m, operation). generateMethod p m operation) (operationsOf spec) = Some methods
           \<and> client = clientHeader fileName (pascalCase fileName @ ''Client'') (baseUrlOf spec)
                      @ joinStrings ''\<newline>\<newline>'' methods @ ''\<newline>}\<newline>''"
proof -
  define dto where "dto = (if ownEntries (allSchemasOf spec) \<noteq> []
               then generateDTOs fs [] (allSchemasOf spec) (pathJoin ''generated'' ''models'')
               else ([], True))"
  define cl where "cl = generateClientClass fs (fst dto) fileName (pascalCase fileName @ ''Client'')
                       (baseUrlOf spec) spec ''generated'' (Some ''openApi.ts'')"
  from assms have nn: "\<not> nullish spec" and mk: "mkdirOk fs (pathJoin ''generated'' ''models'')"
    by (auto simp: processDocument_def split: if_splits)
  from assms nn mk have ok: "snd dto" and cok: "snd cl"
    and w: "fst (processDocument fs fileName spec) = fst dto @ fst cl"
    unfolding dto_def cl_def
    by (auto simp: processDocument_def split: if_splits prod.splits)
  have d: "fst dto = dtoFiles spec"
  proof (cases "ownEntries (allSchemasOf spec) \<noteq> []")
    case True
    from dtoLoop_prefix [of "ownEntries (allSchemasOf spec)" fs "pathJoin ''generated'' ''models''"
                            "allSchemasOf spec" "[]" "[]"] ok True
    show ?thesis
      by (auto simp: dto_def generateDTOs_def dtoFiles_def indexFile_def)
  next
    case False
    then show ?thesis by (simp add: dto_def dtoFiles_def)
  qed
  from cok obtain f client where
    cf: "clientFile fileName (pascalCase fileName @ ''Client'') (baseUrlOf spec) spec (Some ''openApi.ts'')
         = Some (f, client)"
    and cw: "fst cl = [(pathJoin ''generated'' f, client)]"
    unfolding cl_def
    by (auto simp: generateClientClass_def split: option.splits if_splits)
  from clientFile_Some [OF cf] cw obtain methods where
    "fst cl = [(''generated/openApi.ts'', client)]"
    and "mapM (\<lambda>(p, m, operation). generateMethod p m operation) (operationsOf spec) = Some methods"
    and "client = clientHeader fileName (pascalCase fileName @ ''Client'') (baseUrlOf spec)
                      @ joinStrings ''\<newline>\<newline>'' methods @ ''\<newline>}\<newline>''"
    by (auto simp: pathJoin_def)
  with w d show ?thesis by auto
qed

lemma forEachM_order:
  assumes "\<And>x u u'. x \<in> set xs \<Longrightarrow> f x u = Some u' \<Longrightarrow> u' = fold setAdd (g x) u"
    and "forEachM f xs u = Some u'"
  shows "u' = fold setAdd (concat (map g xs)) u"
  using assms
proof (induction xs arbitrary: u)
  case Nil
  then show ?case by simp
next
  case (Cons x xs)
  from Cons.prems(2) obtain u1 where u1: "f x u = Some u1" and rest: "forEachM f xs u1 = Some u'"
    by (auto split: bind_splits)
  from Cons.prems(1) [OF _ u1] have a: "u1 = fold setAdd (g x) u" by simp
  have "u' = fold setAdd (concat (map g xs)) u1"
    by (rule Cons.IH [OF _ rest]) (rule Cons.prems(1), simp_all)
  with a show ?case by simp
qed

lemma collectRefs_order:
  "collectRefs name p used = Some used' \<Longrightarrow> used' = fold setAdd (encounteredRefs name p) used"
proof (induction p arbitrary: used used' rule: measure_induct_rule [of size])
  case (less p)
  define Dr where "Dr = (case field p ''$ref'' of
        JStr r \<Rightarrow> if lastSegment r \<noteq> [] \<and> lastSegment r \<noteq> name then [lastSegment r] else []
      | _ \<Rightarrow> [])"
  define It where "It = (if field p ''type'' = JStr ''array'' \<and> truthy (field p ''items'')
                       then encounteredRefs name (field p ''items'') else [])"
  define Pr where "Pr = (if field p ''type'' = JStr ''object'' \<and> truthy (field p ''properties'')
                       then concat (map (\<lambda>q. encounteredRefs name q)
                                      (map snd (ownEntries (field p ''properties''))))
                       else [])"
  have enc: "encounteredRefs name p = Dr @ It @ Pr"
    unfolding Dr_def It_def Pr_def by (subst encounteredRefs.simps) simp
  from less.prems obtain u1 u2 where
    s1: "(if truthy (field p ''$ref'')
          then map_option (\<lambda>refName. if refName \<noteq> [] \<and> refName \<noteq> name then setAdd refName used else used)
                 (refNameOf (field p ''$ref''))
          else Some used) = Some u1"
    and s2: "(if field p ''type'' = JStr ''array'' \<and> truthy (field p ''items'')
              then collectRefs name (field p ''items'') u1 else Some u1) = Some u2"
    and s3: "(if field p ''type'' = JStr ''object'' \<and> truthy (field p ''properties'')
              then forEachM (\<lambda>p u. collectRefs name p u)
                     (map snd (ownEntries (field p ''properties''))) u2
              else Some u2) = Some used'"
    by (subst (asm) collectRefs.simps) (auto split: bind_splits if_splits)
  have p1: "u1 = fold setAdd Dr used"
  proof (cases "truthy (field p ''$ref'')")
    case True
    with s1 obtain r where r: "field p ''$ref'' = JStr r"
      by (cases "field p ''$ref''") (auto split: if_splits)
    with True s1 show ?thesis
      unfolding Dr_def by (auto split: if_splits)
  next
    case False
    then have "Dr = []"
      unfolding Dr_def by (cases "field p ''$ref''") auto
    with False s1 show ?thesis by simp
  qed
  have p2: "u2 = fold setAdd It u1"
  proof (cases "field p ''type'' = JStr ''array'' \<and> truthy (field p ''items'')")
    case True
    then have "size (field p ''items'') < size p"
      by (simp add: size_field_less truthy_not_undefined)
    from less.IH [OF this] True s2 show ?thesis
      unfolding It_def by auto
  next
    case False
    with s2 show ?thesis unfolding It_def by auto
  qed
  have p3: "used' = fold setAdd Pr u2"
  proof (cases "field p ''type'' = JStr ''object'' \<and> truthy (field p ''properties'')")
    case True
    have small: "size q < size p" if "q \<in> set (map snd (ownEntries (field p ''properties'')))" for q
    proof -
      from that obtain k where "(k, q) \<in> set (ownEntries (field p ''properties''))" by auto
      then have "size q \<le> size (field p ''properties'')" by (rule size_ownEntries_le)
      moreover from True have "size (field p ''properties'') < size p"
        by (simp add: size_field_less truthy_not_undefined)
      ultimately show ?thesis by simp
    qed
    from True s3 have f: "forEachM (\<lambda>p u. collectRefs name p u)
                     (map snd (ownEntries (field p ''properties''))) u2 = Some used'"
      by simp
    have "used' = fold setAdd (concat (map (\<lambda>q. encounteredRefs name q)
                                      (map snd (ownEntries (field p ''properties''))))) u2"
      by (rule forEachM_order [OF _ f]) (rule less.IH, rule small, assumption+)
    with True show ?thesis unfolding Pr_def by simp
  next
    case False
    with s3 show ?thesis unfolding Pr_def by auto
  qed
  from p1 p2 p3 show ?case unfolding enc by simp
qed

lemma gatherProperties_Some:
  assumes "gatherProperties schema required0 = Some st0"
  shows "inheritance st0 = baseNames (allOfParts schema)
         \<and> properties st0 = effectiveProperties schema
         \<and> usedRefs st0 = fold setAdd (baseNames (allOfParts schema)) []"
proof (cases "truthy (field schema ''allOf'')")
  case True
  with assms obtain parts where it: "iterate (field schema ''allOf'') = Some parts"
    and fe: "forEachM allOfPart parts
              \<lparr>usedRefs = [], inheritance = [], properties = [],
               requiredProps = fold setAdd required0 []\<rparr> = Some st0"
    by (auto simp: gatherProperties_def split: bind_splits)
  from True it have ap: "allOfParts schema = parts"
    by (simp add: allOfParts_def)
  from forEachM_allOfPart [OF fe] True show ?thesis
    by (simp add: ap effectiveProperties_def mergedProperties_def)
next
  case False
  with assms show ?thesis
    by (auto simp: gatherProperties_def allOfParts_def effectiveProperties_def baseNames_def
          ownEntries_falsy split: bind_splits)
qed

lemma generateDTOType_order:
  assumes "\<not> truthy (field schema ''enum'')"
    and "generateDTOType name schema allSchemas = Some content"
  shows "\<exists>body.
           content = importSection
                       (firstOccurrences
                          (baseNames (allOfParts schema)
                           @ concat (map (encounteredRefs name) (map snd (effectiveProperties schema)))))
                     @ ''export interface '' @ name
                     @ extendsLine (baseNames (allOfParts schema))
                     @ '' {\<newline>'' @ concat body @ ''}\<newline>''
           \<and> list_all2
                (\<lambda>(k, v) line. \<exists>isRequired.
                     map_option (propLine k isRequired) (getTypeScriptType v allSchemas) = Some line)
                (effectiveProperties schema) body"
proof -
  from generateDTOType_interface [OF assms] obtain st body where
    cs: "collectState name schema = Some st" and pl: "propLines st allSchemas = Some body"
    and c: "content = importSection (usedRefs st) @ ''export interface '' @ name
                        @ extendsLine (inheritance st) @ '' {\<newline>'' @ concat body @ ''}\<newline>''"
    by blast
  from cs obtain required0 st0 refs where
    g: "gatherProperties schema required0 = Some st0"
    and cr: "forEachM (collectRefs name) (map snd (properties st0)) (usedRefs st0) = Some refs"
    and st: "st = st0\<lparr>usedRefs := refs\<rparr>"
    by (auto simp: collectState_def split: bind_splits)
  note gp = gatherProperties_Some [OF g]
  have "refs = fold setAdd (concat (map (encounteredRefs name) (map snd (properties st0)))) (usedRefs st0)"
    by (rule forEachM_order [OF _ cr]) (rule collectRefs_order, assumption)
  with gp have u: "usedRefs st = firstOccurrences
                          (baseNames (allOfParts schema)
                           @ concat (map (encounteredRefs name) (map snd (effectiveProperties schema))))"
    by (simp add: st firstOccurrences_def)
  from gp st have i: "inheritance st = baseNames (allOfParts schema)"
    and pr: "properties st = effectiveProperties schema"
    by simp_all
  from pl have "list_all2 (\<lambda>x y. (case x of (propName, propSchema) \<Rightarrow>
             map_option (propLine propName (setHas (requiredProps st) (JStr propName)))
               (getTypeScriptType propSchema allSchemas)) = Some y) (properties st) body"
    unfolding propLines_def by (rule mapM_list_all2)
  then have l: "list_all2
                (\<lambda>(k, v) line. \<exists>isRequired.
                     map_option (propLine k isRequired) (getTypeScriptType v allSchemas) = Some line)
                (effectiveProperties schema) body"
    unfolding pr by (rule list_all2_mono) auto
  from c have c': "content = importSection
                       (firstOccurrences
                          (baseNames (allOfParts schema)
                           @ concat (map (encounteredRefs name) (map snd (effectiveProperties schema)))))
                     @ ''export interface '' @ name
                     @ extendsLine (baseNames (allOfParts schema))
                     @ '' {\<newline>'' @ concat body @ ''}\<newline>''"
    by (simp only: u i)
  show ?thesis
    by (rule exI [of _ body]) (intro conjI c' l)
qed



lemma enumUnion_scalars:
  assumes "list_all isScalarLiteral vs"
  shows "enumUnion (JArr vs) = Some (joinStrings '' | '' (map literalText vs))"
proof -
  have e: "(if nullish (quoteLiteral v) then [] else toStringJS (quoteLiteral v)) = literalText v"
    if "isScalarLiteral v" for v
    using that by (cases v) (simp_all add: isScalarLiteral_def quoteLiteral_def literalText_def nullish_def)
  from assms have "map (\<lambda>v. if nullish v then [] else toStringJS v) (map quoteLiteral vs)
                   = map literalText vs"
    by (induction vs) (simp_all add: e)
  then show ?thesis by (simp only: enumUnion_def joinJS_def asArray.simps option.map)
qed

lemma generateDTOType_enum_scalars:
  assumes "field schema ''enum'' = JArr vs" and "list_all isScalarLiteral vs"
  shows "generateDTOType name schema allSchemas
         = Some (''export type '' @ name @ '' = '' @ joinStrings '' | '' (map literalText vs) @ '';\<newline>'')"
proof -
  from assms(1) have "\<not> nullish schema" by (auto simp: nullish_def)
  with assms(1) show ?thesis
    by (simp add: generateDTOType_def enumUnion_scalars [OF assms(2)])
qed



section \<open>The path parameters of a method (C1)\<close>

text \<open>
  C1, as the claim states it, fails: \<^verbatim>\<open>extractPathParameters\<close> keeps every match of
  the regular expression, so a token that occurs twice is listed twice, and the
  signature of the method names it twice. For the path \<^verbatim>\<open>/a/{y}/{x}/{y}\<close> the list
  is \<open>(y, x, y)\<close>, not \<open>(y, x)\<close>.
\<close>

theorem C1_duplicate_token_counterexample:
  "extractPathParameters ''/a/{y}/{x}/{y}'' = [''y'', ''x'', ''y'']
   \<and> extractPathParameters ''/a/{y}/{x}/{y}'' \<noteq> [''y'', ''x'']
   \<and> signatureParams (extractPathParameters ''/a/{y}/{x}/{y}'') []
       = [''y: string | number'', ''x: string | number'', ''y: string | number'']"
  by code_simp

text \<open>
  C1, amended: for every path template with well-formed segments, the list of path
  parameters consists of every token occurrence in left-to-right order, a repeated token
  once per occurrence, and the documentation, the signature and the body of the
  generated method are built from that list.
\<close>

theorem C1_path_parameters_every_occurrence:
  assumes "wellFormedSegments segs rest"
    and "generateMethod (renderTemplate segs rest) method operation = Some text"
  shows "extractPathParameters (renderTemplate segs rest) = map snd segs
         \<and> (\<exists>methodName queryParams.
               text = jsdocOf (renderTemplate segs rest) method operation methodName
                        (map snd segs) queryParams
                      @ ''  '' @ methodSignatureOf methodName (map snd segs) queryParams
                      @ '' {\<newline>''
                      @ methodBodyOf (renderTemplate segs rest) (map snd segs) queryParams
                      @ ''\<newline>  }'')"
proof -
  have e: "extractPathParameters (renderTemplate segs rest) = map snd segs"
    using assms(1) by (rule extractPathParameters_renderTemplate)
  from generateMethod_parts [OF assms(2)] show ?thesis
    unfolding e by blast
qed

theorem C1_path_parameters_every_occurrence_witness:
  "wellFormedSegments [(''/a/'', ''y''), (''/'', ''x''), (''/'', ''y'')] []
   \<and> generateMethod ''/a/{y}/{x}/{y}'' ''get'' (JObj []) = Some (
        ''  /**\<newline>''
      @ ''   * GET /a/{y}/{x}/{y}\<newline>''
      @ ''   * @param y Path parameter\<newline>''
      @ ''   * @param x Path parameter\<newline>''
      @ ''   * @param y Path parameter\<newline>''
      @ ''   * @returns URL for the getAByByBy endpoint\<newline>''
      @ ''   */\<newline>''
      @ ''  getAByByBy(y: string | number, x: string | number, y: string | number): string {\<newline>''
      @ ''    let url = this.baseUrl + '' @ [CHR 0x27] @ ''/a/{y}/{x}/{y}'' @ [CHR 0x27] @ '';\<newline>''
      @ ''    url = url.replace('' @ [CHR 0x27] @ ''{y}'' @ [CHR 0x27] @ '', String(y));\<newline>''
      @ ''    url = url.replace('' @ [CHR 0x27] @ ''{x}'' @ [CHR 0x27] @ '', String(x));\<newline>''
      @ ''    url = url.replace('' @ [CHR 0x27] @ ''{y}'' @ [CHR 0x27] @ '', String(y));\<newline>''
      @ ''    return url;\<newline>''
      @ ''  }'')
   \<and> extractPathParameters ''/a/{y}/{x}/{y}'' = [''y'', ''x'', ''y'']"
proof -
  have r: "renderTemplate [(''/a/'', ''y''), (''/'', ''x''), (''/'', ''y'')] [] = ''/a/{y}/{x}/{y}''"
    by (simp add: renderTemplate_def)
  have w: "wellFormedSegments [(''/a/'', ''y''), (''/'', ''x''), (''/'', ''y'')] []"
    by (simp add: wellFormedSegments_def)
  have g: "generateMethod (renderTemplate [(''/a/'', ''y''), (''/'', ''x''), (''/'', ''y'')] [])
             ''get'' (JObj []) = Some (
        ''  /**\<newline>''
      @ ''   * GET /a/{y}/{x}/{y}\<newline>''
      @ ''   * @param y Path parameter\<newline>''
      @ ''   * @param x Path parameter\<newline>''
      @ ''   * @param y Path parameter\<newline>''
      @ ''   * @returns URL for the getAByByBy endpoint\<newline>''
      @ ''   */\<newline>''
      @ ''  getAByByBy(y: string | number, x: string | number, y: string | number): string {\<newline>''
      @ ''    let url = this.baseUrl + '' @ [CHR 0x27] @ ''/a/{y}/{x}/{y}'' @ [CHR 0x27] @ '';\<newline>''
      @ ''    url = url.replace('' @ [CHR 0x27] @ ''{y}'' @ [CHR 0x27] @ '', String(y));\<newline>''
      @ ''    url = url.replace('' @ [CHR 0x27] @ ''{x}'' @ [CHR 0x27] @ '', String(x));\<newline>''
      @ ''    url = url.replace('' @ [CHR 0x27] @ ''{y}'' @ [CHR 0x27] @ '', String(y));\<newline>''
      @ ''    return url;\<newline>''
      @ ''  }'')"
    unfolding r by code_simp
  from C1_path_parameters_every_occurrence [OF w g]
  have "extractPathParameters ''/a/{y}/{x}/{y}'' = [''y'', ''x'', ''y'']"
    unfolding r by simp
  with w g show ?thesis unfolding r by blast
qed

section \<open>The operation identifier (C2, C9)\<close>

text \<open>
  C2, as the claim states it, fails: an operation whose \<^verbatim>\<open>operationId\<close> is the
  empty string has an \<^verbatim>\<open>operationId\<close>, and the generator does not use it
  verbatim: \<^verbatim>\<open>operation.operationId || generateOperationId(...)\<close> takes the derived
  identifier.
\<close>

theorem C2_empty_operationId_counterexample:
  "field (JObj [(''operationId'', JStr [])]) ''operationId'' = JStr []
   \<and> operationIdOf ''/users/{id}'' ''get'' (JObj [(''operationId'', JStr [])]) = Some ''usersBy''
   \<and> operationIdOf ''/users/{id}'' ''get'' (JObj [(''operationId'', JStr [])]) \<noteq> Some []"
  by code_simp

text \<open>
  C2, amended: for every path template with well-formed segments and every operation, a
  non-empty string \<^verbatim>\<open>operationId\<close> is used verbatim as the operation identifier;
  when the \<^verbatim>\<open>operationId\<close> is absent, null or empty (falsy), the identifier is
  the path template with every token in braces replaced by \<^verbatim>\<open>By\<close> and every
  unit that is not a letter or digit deleted. For the path \<^verbatim>\<open>/users/{id}\<close> with
  no \<^verbatim>\<open>operationId\<close> and the method \<^verbatim>\<open>get\<close> the identifier is
  \<^verbatim>\<open>usersBy\<close> and the method name is \<^verbatim>\<open>getUsersBy\<close>.
\<close>

theorem C2_operation_identifier:
  assumes "wellFormedSegments segs rest" and "\<not> nullish operation"
  shows "(\<forall>s. field operation ''operationId'' = JStr s \<and> s \<noteq> []
             \<longrightarrow> operationIdOf (renderTemplate segs rest) method operation = Some s)
         \<and> (\<not> truthy (field operation ''operationId'')
             \<longrightarrow> operationIdOf (renderTemplate segs rest) method operation
                 = Some (concat (map (\<lambda>(lit, tok). filter isAlnum lit @ ''By'') segs)
                         @ filter isAlnum rest))
         \<and> operationIdOf ''/users/{id}'' ''get'' (JObj []) = Some ''usersBy''
         \<and> methodNameOf ''/users/{id}'' ''get'' (JObj []) = Some ''getUsersBy''"
proof -
  have a: "\<forall>s. field operation ''operationId'' = JStr s \<and> s \<noteq> []
             \<longrightarrow> operationIdOf (renderTemplate segs rest) method operation = Some s"
    using assms(2) by (simp add: operationIdOf_def)
  have b: "\<not> truthy (field operation ''operationId'')
             \<longrightarrow> operationIdOf (renderTemplate segs rest) method operation
                 = Some (concat (map (\<lambda>(lit, tok). filter isAlnum lit @ ''By'') segs)
                         @ filter isAlnum rest)"
    using assms(2)
    by (simp add: operationIdOf_def generateOperationId_renderTemplate [OF assms(1)])
  have c: "operationIdOf ''/users/{id}'' ''get'' (JObj []) = Some ''usersBy''"
    by code_simp
  have d: "methodNameOf ''/users/{id}'' ''get'' (JObj []) = Some ''getUsersBy''"
    by code_simp
  from a b c d show ?thesis by blast
qed

theorem C2_operation_identifier_witness:
  "wellFormedSegments [(''/users/'', ''id'')] [] \<and> \<not> nullish (JObj [(''operationId'', JStr ''listUsers'')])
   \<and> \<not> nullish (JObj []) \<and> \<not> truthy (field (JObj []) ''operationId'')
   \<and> operationIdOf ''/users/{id}'' ''get'' (JObj [(''operationId'', JStr ''listUsers'')]) = Some ''listUsers''
   \<and> operationIdOf ''/users/{id}'' ''get'' (JObj []) = Some ''usersBy''
   \<and> methodNameOf ''/users/{id}'' ''get'' (JObj []) = Some ''getUsersBy''"
proof -
  have r: "renderTemplate [(''/users/'', ''id'')] [] = ''/users/{id}''"
    by (simp add: renderTemplate_def)
  have w: "wellFormedSegments [(''/users/'', ''id'')] []"
    by (simp add: wellFormedSegments_def)
  have n1: "\<not> nullish (JObj [(''operationId'', JStr ''listUsers'')])"
    and n2: "\<not> nullish (JObj [])"
    by (simp_all add: nullish_def)
  have f1: "field (JObj [(''operationId'', JStr ''listUsers'')]) ''operationId'' = JStr ''listUsers''
            \<and> ''listUsers'' \<noteq> []"
    and f2: "\<not> truthy (field (JObj []) ''operationId'')"
    by simp_all
  from C2_operation_identifier [OF w n1, of "''get''"] f1
  have p1: "operationIdOf ''/users/{id}'' ''get'' (JObj [(''operationId'', JStr ''listUsers'')]) = Some ''listUsers''"
    unfolding r by blast
  from C2_operation_identifier [OF w n2, of "''get''"] f2
  have p2: "operationIdOf ''/users/{id}'' ''get'' (JObj []) = Some ''usersBy''"
    and p3: "methodNameOf ''/users/{id}'' ''get'' (JObj []) = Some ''getUsersBy''"
    by blast+
  from w n1 n2 f2 p1 p2 p3 show ?thesis by blast
qed

text \<open>
  C9: an operation whose \<^verbatim>\<open>operationId\<close> is the empty string is treated as one
  without \<^verbatim>\<open>operationId\<close>: the method name is built from the identifier derived
  from the path, and equals the name generated for an operation that has no
  \<^verbatim>\<open>operationId\<close>.
\<close>

theorem C9_empty_operationId_is_absent:
  assumes "field operation ''operationId'' = JStr []"
    and "\<not> nullish absent" and "field absent ''operationId'' = JUndefined"
  shows "operationIdOf pathTemplate method operation = Some (generateOperationId method pathTemplate)
         \<and> methodNameOf pathTemplate method operation
             = Some (method @ pascalCase (generateOperationId method pathTemplate))
         \<and> methodNameOf pathTemplate method operation = methodNameOf pathTemplate method absent"
proof -
  from assms(1) have "\<not> nullish operation"
    by (auto simp: nullish_def)
  with assms show ?thesis
    by (simp add: operationIdOf_def methodNameOf_def)
qed

theorem C9_empty_operationId_is_absent_witness:
  "field (JObj [(''operationId'', JStr [])]) ''operationId'' = JStr []
   \<and> \<not> nullish (JObj []) \<and> field (JObj []) ''operationId'' = JUndefined
   \<and> methodNameOf ''/users/{id}'' ''get'' (JObj [(''operationId'', JStr [])]) = Some ''getUsersBy''
   \<and> methodNameOf ''/users/{id}'' ''get'' (JObj [(''operationId'', JStr [])])
       = methodNameOf ''/users/{id}'' ''get'' (JObj [])"
proof -
  have h1: "field (JObj [(''operationId'', JStr [])]) ''operationId'' = JStr []"
    and h2: "\<not> nullish (JObj [])" and h3: "field (JObj []) ''operationId'' = JUndefined"
    by (simp_all add: nullish_def)
  have e: "''get'' @ pascalCase (generateOperationId ''get'' ''/users/{id}'') = ''getUsersBy''"
    by code_simp
  from C9_empty_operationId_is_absent [OF h1 h2 h3, of "''/users/{id}''" "''get''"] h1 h2 h3
  show ?thesis unfolding e by blast
qed

section \<open>The methods of the client (C8)\<close>

text \<open>
  C8, as the claim states it, fails: the generator tests the lower case of the method key
  and names the method with the key as written, so the key \<^verbatim>\<open>GET\<close>, which is not
  one of \<^verbatim>\<open>get\<close>, \<^verbatim>\<open>post\<close>, \<^verbatim>\<open>put\<close>, \<^verbatim>\<open>delete\<close>,
  \<^verbatim>\<open>patch\<close>, produces a method, and its name begins with \<^verbatim>\<open>GET\<close>.
\<close>

theorem C8_uppercase_key_counterexample:
  "''GET'' \<notin> set [''get'', ''post'', ''put'', ''delete'', ''patch'']
   \<and> pathItemMethods ''/users'' [(''GET'', JObj [])] = Some [
          ''  /**\<newline>''
        @ ''   * GET /users\<newline>''
        @ ''   * @returns URL for the GETUsers endpoint\<newline>''
        @ ''   */\<newline>''
        @ ''  GETUsers(): string {\<newline>''
        @ ''    let url = this.baseUrl + '' @ [CHR 0x27] @ ''/users'' @ [CHR 0x27] @ '';\<newline>''
        @ ''    return url;\<newline>''
        @ ''  }'']
   \<and> methodNameOf ''/users'' ''GET'' (JObj []) = Some ''GETUsers''"
  by code_simp

text \<open>
  C8, amended: for the paths of a document (no path item null), the methods generated
  are those of the pairs of a path template and a method key whose lower case is one of
  \<^verbatim>\<open>get\<close>, \<^verbatim>\<open>post\<close>, \<^verbatim>\<open>put\<close>, \<^verbatim>\<open>delete\<close>, \<^verbatim>\<open>patch\<close>,
  in the order of the document; every other key produces no method; each of the five
  keywords is its own lower case; and the name of every generated method is the method
  key as written followed directly by the Pascal-cased operation identifier.
\<close>

theorem C8_methods_generated:
  assumes "list_all (\<lambda>(p, pathItem). \<not> nullish pathItem) paths"
  shows "pathsMethods paths
         = mapM (\<lambda>(p, m, operation). generateMethod p m operation)
             (concat (map (\<lambda>(p, pathItem). map (\<lambda>(m, operation). (p, m, operation))
                 (filter (\<lambda>(m, operation). toLowerCase m \<in> set httpMethods) (ownEntries pathItem))) paths))
         \<and> (\<forall>m. m \<in> set httpMethods \<longrightarrow> toLowerCase m = m)
         \<and> (\<forall>p m operation text. generateMethod p m operation = Some text \<longrightarrow>
               (\<exists>operationId queryParams.
                  operationIdOf p m operation = Some operationId
                  \<and> text = jsdocOf p m operation (m @ pascalCase operationId)
                             (extractPathParameters p) queryParams
                           @ ''  '' @ (m @ pascalCase operationId) @ ''(''
                           @ joinStrings '', '' (signatureParams (extractPathParameters p) queryParams)
                           @ ''): string'' @ '' {\<newline>''
                           @ methodBodyOf p (extractPathParameters p) queryParams
                           @ ''\<newline>  }''))"
proof -
  have c: "\<exists>operationId queryParams.
                  operationIdOf p m operation = Some operationId
                  \<and> src = jsdocOf p m operation (m @ pascalCase operationId)
                             (extractPathParameters p) queryParams
                           @ ''  '' @ (m @ pascalCase operationId) @ ''(''
                           @ joinStrings '', '' (signatureParams (extractPathParameters p) queryParams)
                           @ ''): string'' @ '' {\<newline>''
                           @ methodBodyOf p (extractPathParameters p) queryParams
                           @ ''\<newline>  }''"
    if g: "generateMethod p m operation = Some src" for p m operation src
  proof -
    from generateMethod_parts [OF g] obtain methodName queryParams where
      n: "methodNameOf p m operation = Some methodName"
      and t: "src = jsdocOf p m operation methodName (extractPathParameters p) queryParams
                    @ ''  '' @ methodSignatureOf methodName (extractPathParameters p) queryParams
                    @ '' {\<newline>''
                    @ methodBodyOf p (extractPathParameters p) queryParams
                    @ ''\<newline>  }''"
      by blast
    from n obtain operationId where o: "operationIdOf p m operation = Some operationId"
      and m: "methodName = m @ pascalCase operationId"
      by (auto simp: methodNameOf_def)
    from o t show ?thesis
      unfolding m methodSignatureOf_def by auto
  qed
  from pathsMethods_flat [OF assms] toLowerCase_httpMethods c show ?thesis
    by blast
qed

theorem C8_methods_generated_witness:
  "list_all (\<lambda>(p, pathItem). \<not> nullish pathItem)
     [(''/users'', JObj [(''get'', JObj []), (''options'', JObj []), (''head'', JObj [])])]
   \<and> pathsMethods [(''/users'', JObj [(''get'', JObj []), (''options'', JObj []), (''head'', JObj [])])]
       = mapM (\<lambda>(p, m, operation). generateMethod p m operation) [(''/users'', ''get'', JObj [])]
   \<and> pathsMethods [(''/users'', JObj [(''get'', JObj []), (''options'', JObj []), (''head'', JObj [])])]
       = Some [
          ''  /**\<newline>''
        @ ''   * GET /users\<newline>''
        @ ''   * @returns URL for the getUsers endpoint\<newline>''
        @ ''   */\<newline>''
        @ ''  getUsers(): string {\<newline>''
        @ ''    let url = this.baseUrl + '' @ [CHR 0x27] @ ''/users'' @ [CHR 0x27] @ '';\<newline>''
        @ ''    return url;\<newline>''
        @ ''  }'']"
proof -
  have h: "list_all (\<lambda>(p, pathItem). \<not> nullish pathItem)
     [(''/users'', JObj [(''get'', JObj []), (''options'', JObj []), (''head'', JObj [])])]"
    by (simp add: nullish_def)
  have f: "concat (map (\<lambda>(p, pathItem). map (\<lambda>(m, operation). (p, m, operation))
                 (filter (\<lambda>(m, operation). toLowerCase m \<in> set httpMethods) (ownEntries pathItem)))
              [(''/users'', JObj [(''get'', JObj []), (''options'', JObj []), (''head'', JObj [])])])
           = [(''/users'', ''get'', JObj [])]"
    by code_simp
  have g: "mapM (\<lambda>(p, m, operation). generateMethod p m operation) [(''/users'', ''get'', JObj [])]
       = Some [
          ''  /**\<newline>''
        @ ''   * GET /users\<newline>''
        @ ''   * @returns URL for the getUsers endpoint\<newline>''
        @ ''   */\<newline>''
        @ ''  getUsers(): string {\<newline>''
        @ ''    let url = this.baseUrl + '' @ [CHR 0x27] @ ''/users'' @ [CHR 0x27] @ '';\<newline>''
        @ ''    return url;\<newline>''
        @ ''  }'']"
    by code_simp
  from C8_methods_generated [OF h]
  have e: "pathsMethods [(''/users'', JObj [(''get'', JObj []), (''options'', JObj []), (''head'', JObj [])])]
       = mapM (\<lambda>(p, m, operation). generateMethod p m operation) [(''/users'', ''get'', JObj [])]"
    unfolding f by blast
  from h e g show ?thesis by simp
qed

section \<open>Composite schemas (C4, C10)\<close>

text \<open>
  C4, as the claim states it, fails: the set of required names starts from the schema's
  own top-level \<^verbatim>\<open>required\<close> list, also when the schema has an \<^verbatim>\<open>allOf\<close>.
  A property named there carries no optional marker although no inline part lists it.
\<close>

theorem C4_top_level_required_counterexample:
  "generateDTOType ''Puppy'' puppySchema (JObj []) = Some (
       ''import type { Pet } from '' @ [CHR 0x27] @ ''./Pet'' @ [CHR 0x27] @ '';\<newline>''
     @ ''\<newline>''
     @ ''export interface Puppy extends Pet {\<newline>''
     @ ''  bark: boolean;\<newline>''
     @ ''}\<newline>'')
   \<and> concat (map listedRequired (inlineParts (allOfParts puppySchema))) = []"
  by code_simp

text \<open>
  C4, amended: for every schema without an enum whose \<^verbatim>\<open>allOf\<close> is a list and whose
  \<^verbatim>\<open>required\<close> is absent or a list, and on which generation returns, the
  \<^verbatim>\<open>extends\<close> clause lists exactly the base names of the \<^verbatim>\<open>$ref\<close> parts in
  encounter order, the body has one line for every property name of the inline object
  parts, and a line carries no optional marker exactly when its name is in the schema's
  own top-level required list or in the required list of an inline part. The required
  set of a base is never consulted.
\<close>

theorem C4_allOf_declaration:
  assumes "\<not> truthy (field schema ''enum'')"
    and "field schema ''allOf'' = JArr parts"
    and "orEmptyArray (field schema ''required'') = JArr topRequired"
    and "generateDTOType name schema allSchemas = Some content"
  shows "\<exists>refs body.
           content = importSection refs @ ''export interface '' @ name
                     @ extendsLine (baseNames parts) @ '' {\<newline>'' @ concat body @ ''}\<newline>''
           \<and> fst ` set (mergedProperties parts)
               = (\<Union>part \<in> set (inlineParts parts). fst ` set (ownEntries (field part ''properties'')))
           \<and> list_all2
                (\<lambda>(k, v) line. \<exists>t. getTypeScriptType v allSchemas = Some t
                   \<and> line = propLine k
                        (JStr k \<in> set topRequired
                                  \<union> (\<Union>part \<in> set (inlineParts parts). set (listedRequired part))) t)
                (mergedProperties parts) body"
proof -
  from generateDTOType_interface [OF assms(1,4)] obtain st body where
    cs: "collectState name schema = Some st" and pl: "propLines st allSchemas = Some body"
    and c: "content = importSection (usedRefs st) @ ''export interface '' @ name
                        @ extendsLine (inheritance st) @ '' {\<newline>'' @ concat body @ ''}\<newline>''"
    by blast
  have ap: "allOfParts schema = parts"
    by (simp add: allOfParts_def assms(2))
  have ep: "effectiveProperties schema = mergedProperties parts"
    by (simp add: effectiveProperties_def assms(2) ap)
  from collectState_Some [OF cs] assms(3) have
    inh: "inheritance st = baseNames parts" and pr: "properties st = mergedProperties parts"
    and rq: "set (requiredProps st) = set topRequired
              \<union> (\<Union>part \<in> set (inlineParts parts). set (listedRequired part))"
    by (auto simp: ap ep)
  from propLines_Some [OF pl] have l:
    "list_all2
                (\<lambda>(k, v) line. \<exists>t. getTypeScriptType v allSchemas = Some t
                   \<and> line = propLine k
                        (JStr k \<in> set topRequired
                                  \<union> (\<Union>part \<in> set (inlineParts parts). set (listedRequired part))) t)
                (mergedProperties parts) body"
    by (simp add: pr rq)
  from c inh have c': "content = importSection (usedRefs st) @ ''export interface '' @ name
                     @ extendsLine (baseNames parts) @ '' {\<newline>'' @ concat body @ ''}\<newline>''"
    by simp
  show ?thesis
    by (rule exI [of _ "usedRefs st"], rule exI [of _ body])
       (intro conjI c' l keys_mergedProperties)
qed

theorem C4_allOf_declaration_witness:
  "\<not> truthy (field dogSchema ''enum'')
   \<and> field dogSchema ''allOf'' = JArr dogParts
   \<and> orEmptyArray (field dogSchema ''required'') = JArr [JStr ''owner'']
   \<and> generateDTOType ''Dog'' dogSchema (JObj []) = Some (
          ''import type { Pet } from '' @ [CHR 0x27] @ ''./Pet'' @ [CHR 0x27] @ '';\<newline>''
        @ ''import type { User } from '' @ [CHR 0x27] @ ''./User'' @ [CHR 0x27] @ '';\<newline>''
        @ ''\<newline>''
        @ ''export interface Dog extends Pet {\<newline>''
        @ ''  bark: boolean;\<newline>''
        @ ''  owner: User;\<newline>''
        @ ''  nick?: string;\<newline>''
        @ ''}\<newline>'')
   \<and> (\<exists>refs body.
          ''import type { Pet } from '' @ [CHR 0x27] @ ''./Pet'' @ [CHR 0x27] @ '';\<newline>''
        @ ''import type { User } from '' @ [CHR 0x27] @ ''./User'' @ [CHR 0x27] @ '';\<newline>''
        @ ''\<newline>''
        @ ''export interface Dog extends Pet {\<newline>''
        @ ''  bark: boolean;\<newline>''
        @ ''  owner: User;\<newline>''
        @ ''  nick?: string;\<newline>''
        @ ''}\<newline>''
        = importSection refs @ ''export interface '' @ ''Dog''
          @ extendsLine [''Pet''] @ '' {\<newline>'' @ concat body @ ''}\<newline>'')"
proof -
  define c where "c = ''import type { Pet } from '' @ [CHR 0x27] @ ''./Pet'' @ [CHR 0x27] @ '';\<newline>''
        @ ''import type { User } from '' @ [CHR 0x27] @ ''./User'' @ [CHR 0x27] @ '';\<newline>''
        @ ''\<newline>''
        @ ''export interface Dog extends Pet {\<newline>''
        @ ''  bark: boolean;\<newline>''
        @ ''  owner: User;\<newline>''
        @ ''  nick?: string;\<newline>''
        @ ''}\<newline>''"
  have h1: "\<not> truthy (field dogSchema ''enum'')"
    by (simp add: dogSchema_def)
  have h2: "field dogSchema ''allOf'' = JArr dogParts"
    by (simp add: dogSchema_def)
  have h3: "orEmptyArray (field dogSchema ''required'') = JArr [JStr ''owner'']"
    by (simp add: dogSchema_def orEmptyArray_def)
  have h4: "generateDTOType ''Dog'' dogSchema (JObj []) = Some c"
    unfolding c_def by code_simp
  have b: "baseNames dogParts = [''Pet'']"
    by code_simp
  note concl = C4_allOf_declaration [OF h1 h2 h3 h4, unfolded b]
  from concl obtain refs body where
    "c = importSection refs @ ''export interface '' @ ''Dog''
          @ extendsLine [''Pet''] @ '' {\<newline>'' @ concat body @ ''}\<newline>''"
    by blast
  then have "\<exists>refs body. c = importSection refs @ ''export interface '' @ ''Dog''
          @ extendsLine [''Pet''] @ '' {\<newline>'' @ concat body @ ''}\<newline>''"
    by blast
  with h1 h2 h3 h4 show ?thesis unfolding c_def by (intro conjI)
qed



section \<open>Import lines (C5)\<close>

text \<open>
  C5, as the claim states it, fails: when a schema has an \<^verbatim>\<open>allOf\<close>, its own
  \<^verbatim>\<open>properties\<close> are not read, so a name reachable through them gets no import
  line.
\<close>

theorem C5_sibling_properties_counterexample:
  "(''owner'', refTo ''Owner'') \<in> set (ownEntries (field catSchema ''properties''))
   \<and> refReachable (refTo ''Owner'') ''Owner''
   \<and> ''Owner'' \<noteq> ''Cat''
   \<and> generateDTOType ''Cat'' catSchema (JObj []) = Some (
          ''import type { Pet } from '' @ [CHR 0x27] @ ''./Pet'' @ [CHR 0x27] @ '';\<newline>''
        @ ''\<newline>''
        @ ''export interface Cat extends Pet {\<newline>''
        @ ''}\<newline>'')"
proof -
  have a: "(''owner'', refTo ''Owner'') \<in> set (ownEntries (field catSchema ''properties''))"
    by (simp add: catSchema_def)
  have "lastSegment ''#/components/schemas/Owner'' = ''Owner''"
    by code_simp
  moreover have "field (refTo ''Owner'') ''$ref'' = JStr ''#/components/schemas/Owner''"
    by (simp add: refTo_def)
  ultimately have b: "refReachable (refTo ''Owner'') ''Owner''"
    using refReachable.direct [of "refTo ''Owner''" "''#/components/schemas/Owner''"] by simp
  have c: "''Owner'' \<noteq> ''Cat''" by simp
  have d: "generateDTOType ''Cat'' catSchema (JObj []) = Some (
          ''import type { Pet } from '' @ [CHR 0x27] @ ''./Pet'' @ [CHR 0x27] @ '';\<newline>''
        @ ''\<newline>''
        @ ''export interface Cat extends Pet {\<newline>''
        @ ''}\<newline>'')"
    by code_simp
  from a b c d show ?thesis by blast
qed

text \<open>
  C5, amended: for every schema without an enum on which generation returns, and for
  every name other than the schema's own that is reachable from a property the
  declaration is built from (the schema's own properties when it has no
  \<^verbatim>\<open>allOf\<close>, the merged properties of the inline parts when it has), the file has
  exactly one import line for that name; no import line occurs twice; and the schema's
  own name has no import line unless it is a base of the \<^verbatim>\<open>allOf\<close>.
\<close>

theorem C5_one_import_per_reference:
  assumes "\<not> truthy (field schema ''enum'')"
    and "generateDTOType name schema allSchemas = Some content"
  shows "\<exists>refs decl.
           content = importSection refs @ ''export interface '' @ decl
           \<and> (\<forall>n. n \<noteq> name \<and> (\<exists>p \<in> set (map snd (effectiveProperties schema)). refReachable p n)
                  \<longrightarrow> count_list (map importLine refs) (importLine n) = 1)
           \<and> (name \<notin> set (baseNames (allOfParts schema))
                  \<longrightarrow> count_list (map importLine refs) (importLine name) = 0)
           \<and> (\<forall>n. count_list (map importLine refs) (importLine n) \<le> 1)"
proof -
  from generateDTOType_interface [OF assms] obtain st body where
    cs: "collectState name schema = Some st"
    and c: "content = importSection (usedRefs st) @ ''export interface '' @ name
                        @ extendsLine (inheritance st) @ '' {\<newline>'' @ concat body @ ''}\<newline>''"
    by blast
  from collectState_Some [OF cs] have d: "distinct (usedRefs st)"
    and s: "set (usedRefs st) = set (baseNames (allOfParts schema))
              \<union> {n. n \<noteq> name \<and> (\<exists>p \<in> set (map snd (effectiveProperties schema)). refReachable p n)}"
    by auto
  have cnt: "count_list (map importLine (usedRefs st)) (importLine n)
             = (if n \<in> set (usedRefs st) then 1 else 0)" for n
    using d by (rule count_importLine)
  have p1: "\<forall>n. n \<noteq> name \<and> (\<exists>p \<in> set (map snd (effectiveProperties schema)). refReachable p n)
                  \<longrightarrow> count_list (map importLine (usedRefs st)) (importLine n) = 1"
    unfolding cnt s by auto
  have p2: "name \<notin> set (baseNames (allOfParts schema))
                  \<longrightarrow> count_list (map importLine (usedRefs st)) (importLine name) = 0"
    unfolding cnt s by auto
  have p3: "\<forall>n. count_list (map importLine (usedRefs st)) (importLine n) \<le> 1"
    unfolding cnt by auto
  show ?thesis
    by (rule exI [of _ "usedRefs st"],
        rule exI [of _ "name @ extendsLine (inheritance st) @ '' {\<newline>'' @ concat body @ ''}\<newline>''"])
       (intro conjI c p1 p2 p3)
qed

theorem C5_one_import_per_reference_witness:
  "\<not> truthy (field userSchema ''enum'')
   \<and> generateDTOType ''User'' userSchema (JObj []) = Some (
          ''import type { Pet } from '' @ [CHR 0x27] @ ''./Pet'' @ [CHR 0x27] @ '';\<newline>''
        @ ''\<newline>''
        @ ''export interface User {\<newline>''
        @ ''  id: string;\<newline>''
        @ ''  friend?: User;\<newline>''
        @ ''  pets?: Pet[];\<newline>''
        @ ''  pet?: Pet;\<newline>''
        @ ''}\<newline>'')
   \<and> (\<exists>refs decl.
          ''import type { Pet } from '' @ [CHR 0x27] @ ''./Pet'' @ [CHR 0x27] @ '';\<newline>''
        @ ''\<newline>''
        @ ''export interface User {\<newline>''
        @ ''  id: string;\<newline>''
        @ ''  friend?: User;\<newline>''
        @ ''  pets?: Pet[];\<newline>''
        @ ''  pet?: Pet;\<newline>''
        @ ''}\<newline>'' = importSection refs @ ''export interface '' @ decl
        \<and> count_list (map importLine refs) (importLine ''Pet'') = 1
        \<and> count_list (map importLine refs) (importLine ''User'') = 0)"
proof -
  define c where "c = ''import type { Pet } from '' @ [CHR 0x27] @ ''./Pet'' @ [CHR 0x27] @ '';\<newline>''
        @ ''\<newline>''
        @ ''export interface User {\<newline>''
        @ ''  id: string;\<newline>''
        @ ''  friend?: User;\<newline>''
        @ ''  pets?: Pet[];\<newline>''
        @ ''  pet?: Pet;\<newline>''
        @ ''}\<newline>''"
  have h1: "\<not> truthy (field userSchema ''enum'')"
    by (simp add: userSchema_def)
  have h2: "generateDTOType ''User'' userSchema (JObj []) = Some c"
    unfolding c_def by code_simp
  have e: "effectiveProperties userSchema
           = [(''id'', ofType ''string''), (''friend'', refTo ''User''),
              (''pets'', JObj [(''type'', JStr ''array''), (''items'', refTo ''Pet'')]),
              (''pet'', refTo ''Pet'')]"
    by (simp add: effectiveProperties_def userSchema_def)
  have "lastSegment ''#/components/schemas/Pet'' = ''Pet''"
    by code_simp
  moreover have "field (refTo ''Pet'') ''$ref'' = JStr ''#/components/schemas/Pet''"
    by (simp add: refTo_def)
  ultimately have rp: "refReachable (refTo ''Pet'') ''Pet''"
    using refReachable.direct [of "refTo ''Pet''" "''#/components/schemas/Pet''"] by simp
  have m: "refTo ''Pet'' \<in> set (map snd (effectiveProperties userSchema))"
    unfolding e by simp
  have ne: "''Pet'' \<noteq> ''User''" by simp
  have r: "''Pet'' \<noteq> ''User'' \<and> (\<exists>p \<in> set (map snd (effectiveProperties userSchema)). refReachable p ''Pet'')"
  proof (rule conjI [OF ne])
    show "\<exists>p \<in> set (map snd (effectiveProperties userSchema)). refReachable p ''Pet''"
      using rp m by (rule bexI)
  qed
  have b: "''User'' \<notin> set (baseNames (allOfParts userSchema))"
    by (simp add: allOfParts_def userSchema_def baseNames_def)
  from C5_one_import_per_reference [OF h1 h2] obtain refs decl where
    p: "c = importSection refs @ ''export interface '' @ decl"
    and q1: "\<forall>n. n \<noteq> ''User'' \<and> (\<exists>p \<in> set (map snd (effectiveProperties userSchema)). refReachable p n)
                  \<longrightarrow> count_list (map importLine refs) (importLine n) = 1"
    and q2: "''User'' \<notin> set (baseNames (allOfParts userSchema))
                  \<longrightarrow> count_list (map importLine refs) (importLine ''User'') = 0"
    by blast
  have k1: "count_list (map importLine refs) (importLine ''Pet'') = 1"
    by (rule q1 [rule_format, OF r])
  have k2: "count_list (map importLine refs) (importLine ''User'') = 0"
    by (rule q2 [rule_format, OF b])
  from p k1 k2 have "\<exists>refs decl. c = importSection refs @ ''export interface '' @ decl
        \<and> count_list (map importLine refs) (importLine ''Pet'') = 1
        \<and> count_list (map importLine refs) (importLine ''User'') = 0"
    by blast
  with h1 h2 show ?thesis unfolding c_def by (intro conjI)
qed

section \<open>Enum schemas (C6)\<close>

text \<open>
  C6 does not hold of the code on an enum list with a null literal: \<^verbatim>\<open>join\<close>
  renders null as the empty string, so the literal is missing from the union.
\<close>

theorem C6_null_literal_dropped:
  "generateDTOType ''Status'' (JObj [(''enum'', JArr [JStr ''active'', JNull])]) (JObj [])
   = Some (''export type Status = '' @ [CHR 0x27] @ ''active'' @ [CHR 0x27] @ '' | ;\<newline>'')"
  by code_simp

section \<open>A schema on which generation throws (C3)\<close>




section \<open>Regeneration (C7)\<close>

text \<open>
  C7: the files a run writes are determined by the document, in the order of the
  document. Two runs on the same document that both run to their end, whatever the file
  system answered to each, write the same files with the same text: the file of every
  schema in the order the schemas are declared, the index file with one line for every
  schema in that order, and the client file with the methods of the operations in the
  order of the paths and of the keys of each path item. In the declaration of a schema
  the import lines follow the first occurrence of each base and reference, the
  \<^verbatim>\<open>extends\<close> clause the order of the bases, and the body the order of the
  properties.
\<close>

theorem C7_output_determined_by_document:
  assumes "snd (processDocument fs1 fileName spec)" and "snd (processDocument fs2 fileName spec)"
  shows "fst (processDocument fs1 fileName spec) = fst (processDocument fs2 fileName spec)
         \<and> (\<exists>client methods.
               fst (processDocument fs1 fileName spec)
                 = dtoFiles spec @ [(''generated/openApi.ts'', client)]
               \<and> mapM (\<lambda>(p, m, operation). generateMethod p m operation) (operationsOf spec)
                   = Some methods
               \<and> client = clientHeader fileName (pascalCase fileName @ ''Client'') (baseUrlOf spec)
                          @ joinStrings ''\<newline>\<newline>'' methods @ ''\<newline>}\<newline>'')
         \<and> (\<forall>name schema content.
               \<not> truthy (field schema ''enum'')
               \<and> generateDTOType name schema (allSchemasOf spec) = Some content
               \<longrightarrow> (\<exists>body.
                      content = importSection
                                  (firstOccurrences
                                     (baseNames (allOfParts schema)
                                      @ concat (map (encounteredRefs name)
                                                  (map snd (effectiveProperties schema)))))
                                @ ''export interface '' @ name
                                @ extendsLine (baseNames (allOfParts schema))
                                @ '' {\<newline>'' @ concat body @ ''}\<newline>''
                      \<and> list_all2
                           (\<lambda>(k, v) line. \<exists>isRequired.
                                map_option (propLine k isRequired)
                                  (getTypeScriptType v (allSchemasOf spec)) = Some line)
                           (effectiveProperties schema) body))"
proof -
  from processDocument_complete [OF assms(1)] obtain client1 methods1 where
    w1: "fst (processDocument fs1 fileName spec) = dtoFiles spec @ [(''generated/openApi.ts'', client1)]"
    and m1: "mapM (\<lambda>(p, m, operation). generateMethod p m operation) (operationsOf spec) = Some methods1"
    and c1: "client1 = clientHeader fileName (pascalCase fileName @ ''Client'') (baseUrlOf spec)
                      @ joinStrings ''\<newline>\<newline>'' methods1 @ ''\<newline>}\<newline>''"
    by blast
  from processDocument_complete [OF assms(2)] obtain client2 methods2 where
    w2: "fst (processDocument fs2 fileName spec) = dtoFiles spec @ [(''generated/openApi.ts'', client2)]"
    and m2: "mapM (\<lambda>(p, m, operation). generateMethod p m operation) (operationsOf spec) = Some methods2"
    and c2: "client2 = clientHeader fileName (pascalCase fileName @ ''Client'') (baseUrlOf spec)
                      @ joinStrings ''\<newline>\<newline>'' methods2 @ ''\<newline>}\<newline>''"
    by blast
  from m1 m2 have "methods1 = methods2" by simp
  with c1 c2 have "client1 = client2" by simp
  with w1 w2 have same: "fst (processDocument fs1 fileName spec) = fst (processDocument fs2 fileName spec)"
    by simp
  have files: "\<exists>client methods.
               fst (processDocument fs1 fileName spec)
                 = dtoFiles spec @ [(''generated/openApi.ts'', client)]
               \<and> mapM (\<lambda>(p, m, operation). generateMethod p m operation) (operationsOf spec)
                   = Some methods
               \<and> client = clientHeader fileName (pascalCase fileName @ ''Client'') (baseUrlOf spec)
                          @ joinStrings ''\<newline>\<newline>'' methods @ ''\<newline>}\<newline>''"
    by (rule exI [of _ client1], rule exI [of _ methods1]) (intro conjI w1 m1 c1)
  have decl: "\<forall>name schema content.
               \<not> truthy (field schema ''enum'')
               \<and> generateDTOType name schema (allSchemasOf spec) = Some content
               \<longrightarrow> (\<exists>body.
                      content = importSection
                                  (firstOccurrences
                                     (baseNames (allOfParts schema)
                                      @ concat (map (encounteredRefs name)
                                                  (map snd (effectiveProperties schema)))))
                                @ ''export interface '' @ name
                                @ extendsLine (baseNames (allOfParts schema))
                                @ '' {\<newline>'' @ concat body @ ''}\<newline>''
                      \<and> list_all2
                           (\<lambda>(k, v) line. \<exists>isRequired.
                                map_option (propLine k isRequired)
                                  (getTypeScriptType v (allSchemasOf spec)) = Some line)
                           (effectiveProperties schema) body)"
    using generateDTOType_order by blast
  from same files decl show ?thesis by (intro conjI)
qed

theorem C7_output_determined_by_document_witness:
  "snd (processDocument acceptingFileSystem ''pets'' petsSpec)
   \<and> snd (processDocument generatedOnlyFileSystem ''pets'' petsSpec)
   \<and> fst (processDocument acceptingFileSystem ''pets'' petsSpec)
       = fst (processDocument generatedOnlyFileSystem ''pets'' petsSpec)
   \<and> map fst (fst (processDocument acceptingFileSystem ''pets'' petsSpec))
       = [''generated/models/Pet.ts'', ''generated/models/Owner.ts'', ''generated/models/Kind.ts'',
          ''generated/models/index.ts'', ''generated/openApi.ts'']"
proof -
  have h1: "snd (processDocument acceptingFileSystem ''pets'' petsSpec)"
    by code_simp
  have h2: "snd (processDocument generatedOnlyFileSystem ''pets'' petsSpec)"
    by code_simp
  have n: "map fst (fst (processDocument acceptingFileSystem ''pets'' petsSpec))
       = [''generated/models/Pet.ts'', ''generated/models/Owner.ts'', ''generated/models/Kind.ts'',
          ''generated/models/index.ts'', ''generated/openApi.ts'']"
    by code_simp
  from C7_output_determined_by_document [OF h1 h2]
  have e: "fst (processDocument acceptingFileSystem ''pets'' petsSpec)
       = fst (processDocument generatedOnlyFileSystem ''pets'' petsSpec)"
    by (rule conjunct1)
  from h1 h2 e n show ?thesis by (intro conjI)
qed

end
